theory Spec2Isabelle
  imports Main "HOL-Library.Sublist"
begin

section \<open>The rule no-allocation-in-props\<close>

text \<open>
  A shallow embedding of \<^verbatim>\<open>lib/rules/no-allocation-in-props.js\<close>. The rule is a set of
  four handlers (\<^verbatim>\<open>BlockStatement\<close>, \<^verbatim>\<open>VariableDeclarator\<close>, \<^verbatim>\<open>JSXAttribute\<close>,
  \<^verbatim>\<open>CallExpression\<close>) that share one mutable table, \<^verbatim>\<open>blockVariableNameSets\<close>, and
  call \<^verbatim>\<open>context.report\<close>. The table and the list of reported diagnostics are the state
  that every handler takes and returns; a JavaScript \<^verbatim>\<open>TypeError\<close> (reading a property
  of \<^verbatim>\<open>null\<close> or \<^verbatim>\<open>undefined\<close>) is the left summand of the result.
\<close>

subsection \<open>Data\<close>

text \<open>\<^verbatim>\<open>context.options[0] || {}\<close>: three flags, a missing one is falsy.\<close>

record configuration =
  allowArrays :: bool
  allowObjects :: bool
  ignoreDOMComponents :: bool

text \<open>The keys of \<^verbatim>\<open>violationMessageStore\<close> and of every block's pair of sets.\<close>

datatype violation = array | object

fun violationMessageStore :: "violation \<Rightarrow> string" where
  "violationMessageStore array = ''Props should not use array allocations''"
| "violationMessageStore object = ''Props should not use object allocations''"

text \<open>
  Nodes are referred to by a number (a node's identity; \<^verbatim>\<open>context.report\<close> is given the
  node). A variable name stored in a set is a JavaScript value: a string, or
  \<^verbatim>\<open>undefined\<close> (\<open>None\<close>) when \<^verbatim>\<open>node.id\<close> is a destructuring pattern, which has no
  \<^verbatim>\<open>name\<close>.
\<close>

type_synonym node_ref = nat
type_synonym name = "string option"

text \<open>
  The expression shapes the rule tells apart by \<^verbatim>\<open>node.type\<close>. An object literal carries
  its \<^verbatim>\<open>properties\<close>: each is a node with a \<^verbatim>\<open>value\<close>, which is \<^verbatim>\<open>undefined\<close> for a
  spread element. \<open>OtherExpression\<close> is every other node type.
\<close>

datatype expr =
    ConditionalExpression expr expr expr
  | ArrayExpression
  | ObjectExpression "(node_ref \<times> expr option) list"
  | Identifier string
  | Literal
  | OtherExpression

record block_sets =
  array_set :: "name set"
  object_set :: "name set"

text \<open>\<^verbatim>\<open>blockSets[type]\<close> and \<^verbatim>\<open>blockSets[type].add(name)\<close>.\<close>

fun get_set :: "violation \<Rightarrow> block_sets \<Rightarrow> name set" where
  "get_set array bs = array_set bs"
| "get_set object bs = object_set bs"

fun add_name :: "violation \<Rightarrow> name \<Rightarrow> block_sets \<Rightarrow> block_sets" where
  "add_name array n bs = bs\<lparr>array_set := insert n (array_set bs)\<rparr>"
| "add_name object n bs = bs\<lparr>object_set := insert n (object_set bs)\<rparr>"

text \<open>
  The state of one run of the rule: \<^verbatim>\<open>blockVariableNameSets\<close>, keyed by
  \<^verbatim>\<open>range[0]\<close> of a block, and the diagnostics handed to \<^verbatim>\<open>context.report\<close>, oldest
  first.
\<close>

record rule_state =
  blockVariableNameSets :: "nat \<rightharpoonup> block_sets"
  reports :: "(node_ref \<times> string) list"

definition initial_state :: rule_state where
  "initial_state = \<lparr>blockVariableNameSets = Map.empty, reports = []\<rparr>"

datatype error = TypeError

text \<open>
  What \<^verbatim>\<open>context.getAncestors()\<close> returns for the node being visited: its ancestors, the
  root first. The rule reads \<^verbatim>\<open>type\<close> and \<^verbatim>\<open>range[0]\<close> of each.
\<close>

record ancestor =
  node_type :: string
  range0 :: nat

text \<open>The fields the handlers read of the node they are given.\<close>

record variable_declarator =
  init :: "expr option"
  id_name :: name
  parent_kind :: string

datatype attribute_value =
    NullValue
  | LiteralValue
  | JSXExpressionContainer expr
  | JSXElementValue

record jsx_attribute =
  attribute_node :: node_ref
  parent_isDOMComponent :: bool
  attribute_value :: attribute_value

record call_expression =
  call_node :: node_ref
  isCreateElement :: bool
  arguments :: "expr list"

subsection \<open>The functions of the rule\<close>

definition context_report :: "node_ref \<Rightarrow> string \<Rightarrow> rule_state \<Rightarrow> rule_state" where
  "context_report node message s = s\<lparr>reports := reports s @ [(node, message)]\<rparr>"

definition setBlockVariableNameSet :: "nat \<Rightarrow> rule_state \<Rightarrow> rule_state" where
  "setBlockVariableNameSet blockStart s =
     s\<lparr>blockVariableNameSets :=
         (blockVariableNameSets s)(blockStart \<mapsto> \<lparr>array_set = {}, object_set = {}\<rparr>)\<rparr>"

text \<open>JavaScript's \<^verbatim>\<open>a || b\<close> on values that are a non-empty string or \<^verbatim>\<open>null\<close>.\<close>

fun js_or :: "violation option \<Rightarrow> violation option \<Rightarrow> violation option" where
  "js_or (Some t) _ = Some t"
| "js_or None b = b"

fun getNodeViolationType :: "configuration \<Rightarrow> expr \<Rightarrow> violation option" where
  "getNodeViolationType cfg (ConditionalExpression test consequent alternate) =
     js_or (getNodeViolationType cfg test)
       (js_or (getNodeViolationType cfg consequent) (getNodeViolationType cfg alternate))"
| "getNodeViolationType cfg ArrayExpression =
     (if \<not> allowArrays cfg then Some array else None)"
| "getNodeViolationType cfg (ObjectExpression properties) =
     (if \<not> allowObjects cfg then Some object else None)"
| "getNodeViolationType cfg (Identifier n) = None"
| "getNodeViolationType cfg Literal = None"
| "getNodeViolationType cfg OtherExpression = None"

text \<open>
  \<^verbatim>\<open>blockVariableNameSets[blockStart][violationType].add(variableName)\<close>: a block that
  was never entered has no record, and reading \<^verbatim>\<open>[violationType]\<close> of \<^verbatim>\<open>undefined\<close>
  throws.
\<close>

definition addVariableNameToSet ::
  "violation \<Rightarrow> name \<Rightarrow> nat \<Rightarrow> rule_state \<Rightarrow> error + rule_state" where
  "addVariableNameToSet violationType variableName blockStart s =
     (case blockVariableNameSets s blockStart of
        None \<Rightarrow> Inl TypeError
      | Some blockSets \<Rightarrow>
          Inr (s\<lparr>blockVariableNameSets :=
                 (blockVariableNameSets s)
                   (blockStart \<mapsto> add_name violationType variableName blockSets)\<rparr>))"

definition getBlockStatementAncestors :: "ancestor list \<Rightarrow> ancestor list" where
  "getBlockStatementAncestors ancestors =
     filter (\<lambda>a. node_type a = ''BlockStatement'') (rev ancestors)"

text \<open>
  \<^verbatim>\<open>violationTypes.find(...)\<close> in \<^verbatim>\<open>reportVariableViolation\<close>: the callback reports and
  returns true at the first type whose set has the name, and \<^verbatim>\<open>find\<close> stops there.
\<close>

fun find_violationType ::
  "node_ref \<Rightarrow> name \<Rightarrow> block_sets \<Rightarrow> violation list \<Rightarrow> rule_state
     \<Rightarrow> violation option \<times> rule_state" where
  "find_violationType node n blockSets [] s = (None, s)"
| "find_violationType node n blockSets (t # ts) s =
     (if n \<in> get_set t blockSets
      then (Some t, context_report node (violationMessageStore t) s)
      else find_violationType node n blockSets ts s)"

text \<open>
  \<^verbatim>\<open>Object.keys(blockSets)\<close> is \<^verbatim>\<open>['array', 'object']\<close>, the order in which
  \<^verbatim>\<open>setBlockVariableNameSet\<close> writes the keys; on \<^verbatim>\<open>undefined\<close> it throws.
\<close>

definition reportVariableViolation ::
  "node_ref \<Rightarrow> name \<Rightarrow> nat \<Rightarrow> rule_state \<Rightarrow> error + (violation option \<times> rule_state)" where
  "reportVariableViolation node n blockStart s =
     (case blockVariableNameSets s blockStart of
        None \<Rightarrow> Inl TypeError
      | Some blockSets \<Rightarrow> Inr (find_violationType node n blockSets [array, object] s))"

text \<open>
  \<^verbatim>\<open>getBlockStatementAncestors(node).find(...)\<close> in \<^verbatim>\<open>findVariableViolation\<close>: the walk
  stops at the first block for which \<^verbatim>\<open>reportVariableViolation\<close> returns a type.
\<close>

fun find_block :: "node_ref \<Rightarrow> name \<Rightarrow> ancestor list \<Rightarrow> rule_state \<Rightarrow> error + rule_state" where
  "find_block node n [] s = Inr s"
| "find_block node n (block # blocks) s =
     (case reportVariableViolation node n (range0 block) s of
        Inl e \<Rightarrow> Inl e
      | Inr (Some t, s') \<Rightarrow> Inr s'
      | Inr (None, s') \<Rightarrow> find_block node n blocks s')"

definition findVariableViolation ::
  "node_ref \<Rightarrow> name \<Rightarrow> ancestor list \<Rightarrow> rule_state \<Rightarrow> error + rule_state" where
  "findVariableViolation node n ancestors s =
     find_block node n (getBlockStatementAncestors ancestors) s"

subsection \<open>The handlers\<close>

definition BlockStatement :: "nat \<Rightarrow> rule_state \<Rightarrow> error + rule_state" where
  "BlockStatement range_start s = Inr (setBlockVariableNameSet range_start s)"

definition VariableDeclarator ::
  "configuration \<Rightarrow> variable_declarator \<Rightarrow> ancestor list \<Rightarrow> rule_state \<Rightarrow> error + rule_state" where
  "VariableDeclarator cfg node ancestors s =
     (case init node of
        None \<Rightarrow> Inr s
      | Some node_init \<Rightarrow>
          (let blockAncestors = getBlockStatementAncestors ancestors;
               variableViolationType = getNodeViolationType cfg node_init
           in case (blockAncestors, variableViolationType) of
                (block # _, Some t) \<Rightarrow>
                  (if parent_kind node = ''const''
                   then addVariableNameToSet t (id_name node) (range0 block) s
                   else Inr s)
              | _ \<Rightarrow> Inr s))"

text \<open>
  \<^verbatim>\<open>node.value.expression\<close> throws when \<^verbatim>\<open>node.value\<close> is \<^verbatim>\<open>null\<close>; when the value is a
  literal or an element it is \<^verbatim>\<open>undefined\<close> and \<^verbatim>\<open>valueNode.type\<close> throws.
\<close>

definition JSXAttribute ::
  "configuration \<Rightarrow> jsx_attribute \<Rightarrow> ancestor list \<Rightarrow> rule_state \<Rightarrow> error + rule_state" where
  "JSXAttribute cfg node ancestors s =
     (let isDOMComponent = parent_isDOMComponent node in
      if ignoreDOMComponents cfg \<and> isDOMComponent then Inr s
      else
        (case attribute_value node of
           JSXExpressionContainer valueNode \<Rightarrow>
             (let nodeViolationType = getNodeViolationType cfg valueNode in
              case valueNode of
                Identifier n \<Rightarrow> findVariableViolation (attribute_node node) (Some n) ancestors s
              | _ \<Rightarrow>
                  (case nodeViolationType of
                     Some t \<Rightarrow> Inr (context_report (attribute_node node) (violationMessageStore t) s)
                   | None \<Rightarrow> Inr s))
         | _ \<Rightarrow> Inl TypeError))"

text \<open>The callback of \<^verbatim>\<open>propsArg.properties.forEach\<close> in the \<^verbatim>\<open>CallExpression\<close> handler.\<close>

definition CallExpression_prop ::
  "configuration \<Rightarrow> node_ref \<Rightarrow> ancestor list \<Rightarrow> node_ref \<times> expr option \<Rightarrow> rule_state
     \<Rightarrow> error + rule_state" where
  "CallExpression_prop cfg node ancestors prop s =
     (case snd prop of
        None \<Rightarrow> Inr s
      | Some prop_value \<Rightarrow>
          (let nodeViolationType = getNodeViolationType cfg prop_value in
           case prop_value of
             Identifier n \<Rightarrow> findVariableViolation node (Some n) ancestors s
           | _ \<Rightarrow>
               (case nodeViolationType of
                  Some t \<Rightarrow> Inr (context_report (fst prop) (violationMessageStore t) s)
                | None \<Rightarrow> Inr s)))"

text \<open>\<^verbatim>\<open>forEach\<close>: the properties in order; an exception ends the loop.\<close>

fun forEach_prop ::
  "configuration \<Rightarrow> node_ref \<Rightarrow> ancestor list \<Rightarrow> (node_ref \<times> expr option) list \<Rightarrow> rule_state
     \<Rightarrow> error + rule_state" where
  "forEach_prop cfg node ancestors [] s = Inr s"
| "forEach_prop cfg node ancestors (prop # props) s =
     (case CallExpression_prop cfg node ancestors prop s of
        Inl e \<Rightarrow> Inl e
      | Inr s' \<Rightarrow> forEach_prop cfg node ancestors props s')"

definition CallExpression ::
  "configuration \<Rightarrow> call_expression \<Rightarrow> ancestor list \<Rightarrow> rule_state \<Rightarrow> error + rule_state" where
  "CallExpression cfg node ancestors s =
     (if \<not> isCreateElement node \<or> length (arguments node) = 0 then Inr s
      else
        (let isDOMComponent = (hd (arguments node) = Literal) in
         if ignoreDOMComponents cfg \<and> isDOMComponent then Inr s
         else
           (case tl (arguments node) of
              ObjectExpression properties # _ \<Rightarrow>
                forEach_prop cfg (call_node node) ancestors properties s
            | _ \<Rightarrow> Inr s)))"

subsection \<open>A run of the rule\<close>

text \<open>
  The traversal engine is not part of the rule. A run is the sequence of handler calls it
  makes, each with the node and the ancestors \<^verbatim>\<open>context.getAncestors()\<close> returns during
  the call; an exception thrown by a handler ends the run.
\<close>

datatype event =
    BlockStatement_event nat
  | VariableDeclarator_event variable_declarator "ancestor list"
  | JSXAttribute_event jsx_attribute "ancestor list"
  | CallExpression_event call_expression "ancestor list"

fun dispatch :: "configuration \<Rightarrow> event \<Rightarrow> rule_state \<Rightarrow> error + rule_state" where
  "dispatch cfg (BlockStatement_event range_start) s = BlockStatement range_start s"
| "dispatch cfg (VariableDeclarator_event node ancestors) s = VariableDeclarator cfg node ancestors s"
| "dispatch cfg (JSXAttribute_event node ancestors) s = JSXAttribute cfg node ancestors s"
| "dispatch cfg (CallExpression_event node ancestors) s = CallExpression cfg node ancestors s"

fun run :: "configuration \<Rightarrow> event list \<Rightarrow> rule_state \<Rightarrow> error + rule_state" where
  "run cfg [] s = Inr s"
| "run cfg (e # es) s =
     (case dispatch cfg e s of
        Inl err \<Rightarrow> Inl err
      | Inr s' \<Rightarrow> run cfg es s')"

subsection \<open>Notions used to state the properties\<close>

text \<open>What a handler or a run leaves to be observed: the exception, or the diagnostics.\<close>

fun reported :: "error + rule_state \<Rightarrow> error + (node_ref \<times> string) list" where
  "reported (Inl e) = Inl e"
| "reported (Inr s) = Inr (reports s)"

text \<open>
  A sequence of recording operations: calls of \<^verbatim>\<open>addVariableNameToSet\<close>, in order, each
  with its kind, name and block.
\<close>

fun record_all :: "(violation \<times> name \<times> nat) list \<Rightarrow> rule_state \<Rightarrow> error + rule_state" where
  "record_all [] s = Inr s"
| "record_all ((t, n, b) # ops) s =
     (case addVariableNameToSet t n b s of
        Inl e \<Rightarrow> Inl e
      | Inr s' \<Rightarrow> record_all ops s')"

text \<open>
  The usage sites an event visits: an attribute is one site, a call of the factory with a
  properties object has one site for each property.
\<close>

fun usage_sites :: "event \<Rightarrow> nat" where
  "usage_sites (BlockStatement_event range_start) = 0"
| "usage_sites (VariableDeclarator_event node ancestors) = 0"
| "usage_sites (JSXAttribute_event node ancestors) = 1"
| "usage_sites (CallExpression_event node ancestors) =
     (case arguments node of
        tag # ObjectExpression properties # args \<Rightarrow> length properties
      | _ \<Rightarrow> 0)"

text \<open>The flag of the configuration that allows a kind, and the other of the two kinds.\<close>

fun allowed :: "configuration \<Rightarrow> violation \<Rightarrow> bool" where
  "allowed cfg array = allowArrays cfg"
| "allowed cfg object = allowObjects cfg"

fun other_kind :: "violation \<Rightarrow> violation" where
  "other_kind array = object"
| "other_kind object = array"

text \<open>
  \<open>flag_flipped k c1 c2\<close>: the two configurations differ in the flag of kind \<open>k\<close> only,
  which is false in \<open>c1\<close> and true in \<open>c2\<close>.
\<close>

definition flag_flipped :: "violation \<Rightarrow> configuration \<Rightarrow> configuration \<Rightarrow> bool" where
  "flag_flipped k c1 c2 \<longleftrightarrow>
     \<not> allowed c1 k \<and> allowed c2 k
     \<and> allowed c1 (other_kind k) = allowed c2 (other_kind k)
     \<and> ignoreDOMComponents c1 = ignoreDOMComponents c2"

text \<open>
  The invariant of a run whose configuration allows kind \<open>k\<close>: no block has a name in
  its set of kind \<open>k\<close>, and no diagnostic of kind \<open>k\<close> was reported.
\<close>

definition suppressed :: "violation \<Rightarrow> rule_state \<Rightarrow> bool" where
  "suppressed k s \<longleftrightarrow>
     (\<forall>b bs. blockVariableNameSets s b = Some bs \<longrightarrow> get_set k bs = {})
     \<and> (\<forall>r \<in> set (reports s). snd r \<noteq> violationMessageStore k)"

text \<open>
  The relation between the states of two runs over the same events, the first with the
  flag of kind \<open>k\<close> false and the second with it true. The same blocks are entered; a name
  bound under the other kind in the first run is bound under it in the second; a name
  bound in the second run is bound, under some kind, in the first. The diagnostics of the
  second run are those of the first that were kept, in order and at the same nodes, each
  with the message of the other kind: every diagnostic of the other kind is kept, and a
  diagnostic of kind \<open>k\<close> is either dropped or kept.
\<close>

definition sets_related ::
  "violation \<Rightarrow> (nat \<rightharpoonup> block_sets) \<Rightarrow> (nat \<rightharpoonup> block_sets) \<Rightarrow> bool" where
  "sets_related k m1 m2 \<longleftrightarrow>
     (\<forall>b. (m1 b = None \<longleftrightarrow> m2 b = None))
     \<and> (\<forall>b bs1 bs2. m1 b = Some bs1 \<and> m2 b = Some bs2 \<longrightarrow>
           get_set (other_kind k) bs1 \<subseteq> get_set (other_kind k) bs2
           \<and> get_set (other_kind k) bs2 \<subseteq> get_set k bs1 \<union> get_set (other_kind k) bs1)"

definition reports_related ::
  "violation \<Rightarrow> (node_ref \<times> string) list \<Rightarrow> (node_ref \<times> string) list \<Rightarrow> bool" where
  "reports_related k rs1 rs2 \<longleftrightarrow>
     (\<exists>kept. subseq kept rs1
        \<and> filter (\<lambda>r. snd r = violationMessageStore (other_kind k)) kept
            = filter (\<lambda>r. snd r = violationMessageStore (other_kind k)) rs1
        \<and> rs2 = map (\<lambda>r. (fst r, violationMessageStore (other_kind k))) kept)"

definition related :: "violation \<Rightarrow> rule_state \<Rightarrow> rule_state \<Rightarrow> bool" where
  "related k s1 s2 \<longleftrightarrow>
     sets_related k (blockVariableNameSets s1) (blockVariableNameSets s2)
     \<and> reports_related k (reports s1) (reports s2)"

subsection \<open>Inputs for the examples\<close>

definition blk :: "nat \<Rightarrow> ancestor" where
  "blk i = \<lparr>node_type = ''BlockStatement'', range0 = i\<rparr>"

definition other_node :: "string \<Rightarrow> nat \<Rightarrow> ancestor" where
  "other_node t i = \<lparr>node_type = t, range0 = i\<rparr>"

text \<open>
  Three entered blocks: the one at 0 binds \<^verbatim>\<open>a\<close> to an object, the one at 10 binds
  \<^verbatim>\<open>a\<close> to an array, the one at 20 binds nothing.
\<close>

definition ex_state :: rule_state where
  "ex_state = \<lparr>blockVariableNameSets =
       [0 \<mapsto> \<lparr>array_set = {}, object_set = {Some ''a''}\<rparr>,
        10 \<mapsto> \<lparr>array_set = {Some ''a''}, object_set = {}\<rparr>,
        20 \<mapsto> \<lparr>array_set = {}, object_set = {}\<rparr>], reports = []\<rparr>"

definition cfg_default :: configuration where
  "cfg_default = \<lparr>allowArrays = False, allowObjects = False, ignoreDOMComponents = False\<rparr>"

text \<open>
  A block at 40 with \<^verbatim>\<open>const bar = []\<close> and \<^verbatim>\<open>const style = {}\<close>, then the attributes
  \<^verbatim>\<open>bar={bar}\<close> and \<^verbatim>\<open>style={style}\<close> on a component, then
  \<^verbatim>\<open>React.createElement(Foo, { x: [], y: {} })\<close>.
\<close>

definition ex_events :: "event list" where
  "ex_events =
     [BlockStatement_event 40,
      VariableDeclarator_event
        \<lparr>init = Some ArrayExpression, id_name = Some ''bar'', parent_kind = ''const''\<rparr>
        [other_node ''Program'' 0, blk 40, other_node ''VariableDeclaration'' 50],
      VariableDeclarator_event
        \<lparr>init = Some (ObjectExpression []), id_name = Some ''style'', parent_kind = ''const''\<rparr>
        [other_node ''Program'' 0, blk 40, other_node ''VariableDeclaration'' 80],
      JSXAttribute_event
        \<lparr>attribute_node = 1, parent_isDOMComponent = False,
           attribute_value = JSXExpressionContainer (Identifier ''bar'')\<rparr>
        [other_node ''Program'' 0, blk 40, other_node ''ExpressionStatement'' 110],
      JSXAttribute_event
        \<lparr>attribute_node = 2, parent_isDOMComponent = False,
           attribute_value = JSXExpressionContainer (Identifier ''style'')\<rparr>
        [other_node ''Program'' 0, blk 40, other_node ''ExpressionStatement'' 110],
      CallExpression_event
        \<lparr>call_node = 3, isCreateElement = True,
           arguments = [Identifier ''Foo'',
             ObjectExpression [(4, Some ArrayExpression), (5, Some (ObjectExpression []))]]\<rparr>
        [other_node ''Program'' 0, blk 40, other_node ''ExpressionStatement'' 150]]"

text \<open>The attribute \<^verbatim>\<open>bar={c ? [] : {}}\<close> on a component, outside every block.\<close>

definition ex_conditional :: "event list" where
  "ex_conditional =
     [JSXAttribute_event
        \<lparr>attribute_node = 1, parent_isDOMComponent = False,
           attribute_value = JSXExpressionContainer
             (ConditionalExpression (Identifier ''c'') ArrayExpression (ObjectExpression []))\<rparr>
        [other_node ''Program'' 0]]"

text \<open>
  Two loops in the block at 0, \<^verbatim>\<open>for (const a = [];;) ...\<close> and then
  \<^verbatim>\<open>for (const a = {};;) { ... <Foo bar={a} /> ... }\<close>, the body of the second a block at 60.
  Each loop has a scope of its own, so the two declarations are legal JavaScript, and the
  nearest enclosing block of both is the block at 0.
\<close>

definition ex_two_loops :: "event list" where
  "ex_two_loops =
     [BlockStatement_event 0,
      VariableDeclarator_event
        \<lparr>init = Some ArrayExpression, id_name = Some ''a'', parent_kind = ''const''\<rparr>
        [other_node ''Program'' 0, blk 0, other_node ''ForStatement'' 2,
         other_node ''VariableDeclaration'' 7],
      VariableDeclarator_event
        \<lparr>init = Some (ObjectExpression []), id_name = Some ''a'', parent_kind = ''const''\<rparr>
        [other_node ''Program'' 0, blk 0, other_node ''ForStatement'' 30,
         other_node ''VariableDeclaration'' 35],
      BlockStatement_event 60,
      JSXAttribute_event
        \<lparr>attribute_node = 1, parent_isDOMComponent = False,
           attribute_value = JSXExpressionContainer (Identifier ''a'')\<rparr>
        [other_node ''Program'' 0, blk 0, other_node ''ForStatement'' 30, blk 60,
         other_node ''ExpressionStatement'' 62]]"

text \<open>The block at 0 entered, \<^verbatim>\<open>const a = []\<close> recorded in it, and the block entered again.\<close>

definition ex_block_twice :: "event list" where
  "ex_block_twice =
     [BlockStatement_event 0,
      VariableDeclarator_event
        \<lparr>init = Some ArrayExpression, id_name = Some ''a'', parent_kind = ''const''\<rparr>
        [other_node ''Program'' 0, blk 0, other_node ''VariableDeclaration'' 2],
      BlockStatement_event 0]"
section \<open>Properties\<close>

text \<open>The definitions that evaluating a run on a given input unfolds.\<close>

lemmas run_simps = initial_state_def blk_def other_node_def BlockStatement_def
  VariableDeclarator_def JSXAttribute_def CallExpression_def CallExpression_prop_def
  setBlockVariableNameSet_def getBlockStatementAncestors_def addVariableNameToSet_def
  findVariableViolation_def reportVariableViolation_def context_report_def

subsection \<open>The walk over the enclosing blocks\<close>

lemma find_block_append_miss:
  assumes "\<forall>p \<in> set pre. \<exists>bs. blockVariableNameSets s (range0 p) = Some bs
             \<and> n \<notin> array_set bs \<and> n \<notin> object_set bs"
  shows "find_block node n (pre @ blocks) s = find_block node n blocks s"
  using assms
  by (induction pre) (auto simp: reportVariableViolation_def)

lemma find_block_hit:
  assumes "blockVariableNameSets s (range0 block) = Some bs"
    and "n \<in> array_set bs \<or> n \<in> object_set bs"
  shows "find_block node n (block # blocks) s =
           Inr (context_report node
                  (violationMessageStore (if n \<in> array_set bs then array else object)) s)"
  using assms by (auto simp: reportVariableViolation_def)

lemma getBlockStatementAncestors_append:
  "getBlockStatementAncestors (outer @ block # inner) =
     getBlockStatementAncestors inner
       @ (if node_type block = ''BlockStatement'' then [block] else [])
       @ getBlockStatementAncestors outer"
  by (simp add: getBlockStatementAncestors_def)

lemma set_getBlockStatementAncestors:
  "set (getBlockStatementAncestors ancestors) =
     {a \<in> set ancestors. node_type a = ''BlockStatement''}"
  by (auto simp: getBlockStatementAncestors_def)

text \<open>
  Claim C1. The ancestors of the usage site are given root first. When \<open>block\<close> is a
  block among them whose record has the name in one of its two sets, and every block
  below it (nearer to the site) has a record without the name, the walk reports exactly
  one diagnostic: the kind of \<open>block\<close> (array when the name is in its array set, object
  otherwise), whatever the blocks above it (\<open>outer\<close>) bind. When every enclosing block has
  a record without the name, the state is returned as it was: no diagnostic.
\<close>

theorem findVariableViolation_first_block:
  "(ancestors = outer @ block # inner
      \<and> node_type block = ''BlockStatement''
      \<and> (\<forall>p \<in> set inner. node_type p = ''BlockStatement'' \<longrightarrow>
            (\<exists>ps. blockVariableNameSets s (range0 p) = Some ps
                  \<and> n \<notin> array_set ps \<and> n \<notin> object_set ps))
      \<and> blockVariableNameSets s (range0 block) = Some bs
      \<and> (n \<in> array_set bs \<or> n \<in> object_set bs)
    \<longrightarrow> findVariableViolation node n ancestors s =
          Inr (context_report node
                 (violationMessageStore (if n \<in> array_set bs then array else object)) s))
   \<and> ((\<forall>p \<in> set ancestors. node_type p = ''BlockStatement'' \<longrightarrow>
            (\<exists>ps. blockVariableNameSets s (range0 p) = Some ps
                  \<and> n \<notin> array_set ps \<and> n \<notin> object_set ps))
    \<longrightarrow> findVariableViolation node n ancestors s = Inr s)"
proof (intro conjI impI)
  assume a: "ancestors = outer @ block # inner
      \<and> node_type block = ''BlockStatement''
      \<and> (\<forall>p \<in> set inner. node_type p = ''BlockStatement'' \<longrightarrow>
            (\<exists>ps. blockVariableNameSets s (range0 p) = Some ps
                  \<and> n \<notin> array_set ps \<and> n \<notin> object_set ps))
      \<and> blockVariableNameSets s (range0 block) = Some bs
      \<and> (n \<in> array_set bs \<or> n \<in> object_set bs)"
  then have miss: "\<forall>p \<in> set (getBlockStatementAncestors inner).
      \<exists>ps. blockVariableNameSets s (range0 p) = Some ps \<and> n \<notin> array_set ps \<and> n \<notin> object_set ps"
    by (simp add: set_getBlockStatementAncestors)
  from a have chain: "getBlockStatementAncestors ancestors =
      getBlockStatementAncestors inner @ block # getBlockStatementAncestors outer"
    by (simp add: getBlockStatementAncestors_append)
  from a have hit: "blockVariableNameSets s (range0 block) = Some bs"
      "n \<in> array_set bs \<or> n \<in> object_set bs" by simp_all
  show "findVariableViolation node n ancestors s =
          Inr (context_report node
                 (violationMessageStore (if n \<in> array_set bs then array else object)) s)"
    unfolding findVariableViolation_def chain
    by (simp only: find_block_append_miss [OF miss] find_block_hit [OF hit])
next
  assume "\<forall>p \<in> set ancestors. node_type p = ''BlockStatement'' \<longrightarrow>
            (\<exists>ps. blockVariableNameSets s (range0 p) = Some ps
                  \<and> n \<notin> array_set ps \<and> n \<notin> object_set ps)"
  then have miss: "\<forall>p \<in> set (getBlockStatementAncestors ancestors).
      \<exists>ps. blockVariableNameSets s (range0 p) = Some ps \<and> n \<notin> array_set ps \<and> n \<notin> object_set ps"
    by (simp add: set_getBlockStatementAncestors)
  show "findVariableViolation node n ancestors s = Inr s"
    unfolding findVariableViolation_def
    using find_block_append_miss [OF miss, of node "[]"] by simp
qed

text \<open>
  At the site inside the blocks at 0, 10 and 20 of \<open>ex_state\<close>, \<^verbatim>\<open>a\<close> resolves to the
  array of the block at 10, not to the object of the outer block at 0; \<^verbatim>\<open>b\<close>, bound
  nowhere, gives no diagnostic.
\<close>

theorem findVariableViolation_first_block_witness:
  "findVariableViolation 7 (Some ''a'')
       [other_node ''Program'' 0, blk 0, blk 10, other_node ''ExpressionStatement'' 12, blk 20]
       ex_state
     = Inr (context_report 7 ''Props should not use array allocations'' ex_state)
   \<and> findVariableViolation 7 (Some ''b'') [other_node ''Program'' 0, blk 0, blk 10, blk 20]
       ex_state
     = Inr ex_state"
proof -
  have hit: "findVariableViolation 7 (Some ''a'')
       [other_node ''Program'' 0, blk 0, blk 10, other_node ''ExpressionStatement'' 12, blk 20]
       ex_state
     = Inr (context_report 7 ''Props should not use array allocations'' ex_state)"
    using findVariableViolation_first_block
      [of "[other_node ''Program'' 0, blk 0, blk 10, other_node ''ExpressionStatement'' 12, blk 20]"
          "[other_node ''Program'' 0, blk 0]" "blk 10"
          "[other_node ''ExpressionStatement'' 12, blk 20]" ex_state "Some ''a''"
          "\<lparr>array_set = {Some ''a''}, object_set = {}\<rparr>" 7]
    by (simp add: ex_state_def blk_def other_node_def)
  have miss: "findVariableViolation 7 (Some ''b'')
       [other_node ''Program'' 0, blk 0, blk 10, blk 20] ex_state = Inr ex_state"
    using findVariableViolation_first_block
      [of "[other_node ''Program'' 0, blk 0, blk 10, blk 20]" "[]" "blk 0" "[]" ex_state
          "Some ''b''" "\<lparr>array_set = {}, object_set = {}\<rparr>" 7]
    by (simp add: ex_state_def blk_def other_node_def)
  from hit miss show ?thesis by simp
qed

subsection \<open>The classifier\<close>

text \<open>
  Claim C2. \<open>getNodeViolationType\<close> is a function of the configuration and the node
  alone (it takes and returns no state), defined by structural recursion on the node,
  hence total. On a conditional expression its result is the first result other than
  none among those of the test, the consequent and the alternate, in this order, and
  none when all three are none. On an array literal it is array when \<open>allowArrays\<close> is
  false and none otherwise; on an object literal it is object when \<open>allowObjects\<close> is
  false and none otherwise; on a node of any other shape it is none.
\<close>

theorem getNodeViolationType_classifier:
  "getNodeViolationType cfg (ConditionalExpression test consequent alternate) =
     (case find (\<lambda>r. r \<noteq> None)
             [getNodeViolationType cfg test, getNodeViolationType cfg consequent,
              getNodeViolationType cfg alternate] of
        Some r \<Rightarrow> r
      | None \<Rightarrow> None)
   \<and> getNodeViolationType cfg ArrayExpression = (if allowArrays cfg then None else Some array)
   \<and> getNodeViolationType cfg (ObjectExpression properties) =
       (if allowObjects cfg then None else Some object)
   \<and> ((\<forall>t c a. e \<noteq> ConditionalExpression t c a) \<and> e \<noteq> ArrayExpression
        \<and> (\<forall>ps. e \<noteq> ObjectExpression ps)
      \<longrightarrow> getNodeViolationType cfg e = None)"
proof -
  have other: "(\<forall>t c a. e \<noteq> ConditionalExpression t c a) \<and> e \<noteq> ArrayExpression
        \<and> (\<forall>ps. e \<noteq> ObjectExpression ps)
      \<longrightarrow> getNodeViolationType cfg e = None"
    by (cases e) simp_all
  have cond: "getNodeViolationType cfg (ConditionalExpression test consequent alternate) =
     (case find (\<lambda>r. r \<noteq> None)
             [getNodeViolationType cfg test, getNodeViolationType cfg consequent,
              getNodeViolationType cfg alternate] of
        Some r \<Rightarrow> r
      | None \<Rightarrow> None)"
    by (cases "getNodeViolationType cfg test"; cases "getNodeViolationType cfg consequent";
        cases "getNodeViolationType cfg alternate") simp_all
  from other cond show ?thesis by simp
qed

text \<open>
  \<^verbatim>\<open>c ? {} : []\<close> is an object by default and an array once objects are allowed; an
  identifier is none.
\<close>

theorem getNodeViolationType_classifier_witness:
  "getNodeViolationType cfg_default
       (ConditionalExpression OtherExpression (ObjectExpression []) ArrayExpression) = Some object
   \<and> getNodeViolationType (cfg_default\<lparr>allowObjects := True\<rparr>)
       (ConditionalExpression OtherExpression (ObjectExpression []) ArrayExpression) = Some array
   \<and> getNodeViolationType cfg_default (Identifier ''foo'') = None"
proof -
  from getNodeViolationType_classifier
    [of cfg_default OtherExpression "ObjectExpression []" ArrayExpression "[]"
        "Identifier ''foo''"]
  have 1: "getNodeViolationType cfg_default
       (ConditionalExpression OtherExpression (ObjectExpression []) ArrayExpression) = Some object"
    and 2: "getNodeViolationType cfg_default (Identifier ''foo'') = None"
    by (simp_all add: cfg_default_def)
  from getNodeViolationType_classifier
    [of "cfg_default\<lparr>allowObjects := True\<rparr>" OtherExpression "ObjectExpression []"
        ArrayExpression "[]" "Identifier ''foo''"]
  have 3: "getNodeViolationType (cfg_default\<lparr>allowObjects := True\<rparr>)
       (ConditionalExpression OtherExpression (ObjectExpression []) ArrayExpression) = Some array"
    by (simp add: cfg_default_def)
  from 1 2 3 show ?thesis by simp
qed

lemma js_or_Some: "js_or a b = Some t \<longleftrightarrow> a = Some t \<or> (a = None \<and> b = Some t)"
  by (cases a) simp_all

lemma js_or_None: "js_or a b = None \<longleftrightarrow> a = None \<and> b = None"
  by (cases a) simp_all

subsection \<open>Recording a binding\<close>

lemma get_set_add_name:
  "get_set t' (add_name t n bs) = (if t' = t then insert n (get_set t' bs) else get_set t' bs)"
  by (cases t; cases t') simp_all

lemma addVariableNameToSet_reports:
  "addVariableNameToSet t n b s = Inr s' \<Longrightarrow> reports s' = reports s"
  by (auto simp: addVariableNameToSet_def split: option.splits)

lemma addVariableNameToSet_None:
  "addVariableNameToSet t n b s = Inr s' \<Longrightarrow> blockVariableNameSets s b' = None
     \<Longrightarrow> blockVariableNameSets s' b' = None"
  by (auto simp: addVariableNameToSet_def split: option.splits)

lemma addVariableNameToSet_Some:
  "addVariableNameToSet t n b s = Inr s' \<Longrightarrow> blockVariableNameSets s b' = Some bs
     \<Longrightarrow> \<exists>bs'. blockVariableNameSets s' b' = Some bs'
             \<and> (\<forall>t'. get_set t' bs' = get_set t' bs \<union> {m. t' = t \<and> m = n \<and> b' = b})"
  by (auto simp: addVariableNameToSet_def get_set_add_name split: option.splits)

text \<open>
  Claim C3, as the code has it. After any sequence of recording operations that does not
  throw, each of the two sets of every entered block holds the names it held before
  together with exactly the names recorded for that block under that kind, and no
  diagnostic is added. Recording only ever adds: a name recorded under one kind is never
  taken out of the set of the other kind, so a name recorded under both kinds in one
  block is a member of both sets.
\<close>

theorem record_all_only_adds:
  "record_all ops s = Inr s' \<Longrightarrow>
     reports s' = reports s
     \<and> (\<forall>b. blockVariableNameSets s b = None \<longrightarrow> blockVariableNameSets s' b = None)
     \<and> (\<forall>b bs. blockVariableNameSets s b = Some bs \<longrightarrow>
           (\<exists>bs'. blockVariableNameSets s' b = Some bs'
              \<and> (\<forall>t. get_set t bs' = get_set t bs \<union> {n. (t, n, b) \<in> set ops})))"
proof (induction ops arbitrary: s)
  case Nil
  then show ?case by simp
next
  case (Cons op ops)
  obtain t n b where op: "op = (t, n, b)" by (cases op) auto
  from Cons.prems op obtain s1 where
    s1: "addVariableNameToSet t n b s = Inr s1" and rest: "record_all ops s1 = Inr s'"
    by (auto split: sum.splits)
  note ih = Cons.IH [OF rest]
  show ?case
  proof (intro conjI allI impI)
    show "reports s' = reports s"
      using addVariableNameToSet_reports [OF s1] ih by simp
  next
    fix b' assume "blockVariableNameSets s b' = None"
    then have "blockVariableNameSets s1 b' = None"
      by (rule addVariableNameToSet_None [OF s1])
    with ih show "blockVariableNameSets s' b' = None" by blast
  next
    fix b' bs assume "blockVariableNameSets s b' = Some bs"
    from addVariableNameToSet_Some [OF s1 this]
    obtain bs1 where bs1: "blockVariableNameSets s1 b' = Some bs1"
      and sets1: "\<forall>t'. get_set t' bs1 = get_set t' bs \<union> {m. t' = t \<and> m = n \<and> b' = b}"
      by blast
    from ih bs1 obtain bs' where bs': "blockVariableNameSets s' b' = Some bs'"
      and sets': "\<forall>t'. get_set t' bs' = get_set t' bs1 \<union> {n'. (t', n', b') \<in> set ops}"
      by blast
    have "\<forall>t'. get_set t' bs' = get_set t' bs \<union> {n'. (t', n', b') \<in> set (op # ops)}"
      using sets1 sets' op by auto
    with bs' show "\<exists>bs'. blockVariableNameSets s' b' = Some bs'
        \<and> (\<forall>t. get_set t bs' = get_set t bs \<union> {n. (t, n, b') \<in> set (op # ops)})"
      by blast
  qed
qed

text \<open>
  \<^verbatim>\<open>a\<close> recorded as an array and then as an object in the block at 20 of \<open>ex_state\<close>
  is in both sets of that block.
\<close>

theorem record_all_only_adds_witness:
  "record_all [(array, Some ''a'', 20), (object, Some ''a'', 20), (object, Some ''b'', 0)] ex_state
     = Inr (ex_state\<lparr>blockVariableNameSets :=
          [0 \<mapsto> \<lparr>array_set = {}, object_set = {Some ''a'', Some ''b''}\<rparr>,
           10 \<mapsto> \<lparr>array_set = {Some ''a''}, object_set = {}\<rparr>,
           20 \<mapsto> \<lparr>array_set = {Some ''a''}, object_set = {Some ''a''}\<rparr>]\<rparr>)
   \<and> (\<exists>s' bs'. record_all [(array, Some ''a'', 20), (object, Some ''a'', 20), (object, Some ''b'', 0)]
                  ex_state = Inr s'
        \<and> blockVariableNameSets s' 20 = Some bs'
        \<and> get_set array bs' = {Some ''a''} \<and> get_set object bs' = {Some ''a''})"
proof -
  let ?ops = "[(array, Some ''a'', 20), (object, Some ''a'', 20), (object, Some ''b'', 0::nat)]"
  let ?s' = "ex_state\<lparr>blockVariableNameSets :=
          [0 \<mapsto> \<lparr>array_set = {}, object_set = {Some ''a'', Some ''b''}\<rparr>,
           10 \<mapsto> \<lparr>array_set = {Some ''a''}, object_set = {}\<rparr>,
           20 \<mapsto> \<lparr>array_set = {Some ''a''}, object_set = {Some ''a''}\<rparr>]\<rparr>"
  have r: "record_all ?ops ex_state = Inr ?s'"
    by (auto simp: addVariableNameToSet_def ex_state_def fun_eq_iff)
  have before: "blockVariableNameSets ex_state 20 = Some \<lparr>array_set = {}, object_set = {}\<rparr>"
    by (simp add: ex_state_def)
  from record_all_only_adds [OF r] before
  obtain bs' where 1: "blockVariableNameSets ?s' 20 = Some bs'"
    and 2: "\<forall>t. get_set t bs' = get_set t \<lparr>array_set = {}, object_set = {}\<rparr>
              \<union> {n. (t, n, 20) \<in> set ?ops}"
    by blast
  from 2 [rule_format, of array] have a: "get_set array bs' = {Some ''a''}" by auto
  from 2 [rule_format, of object] have b: "get_set object bs' = {Some ''a''}" by auto
  from r 1 a b show ?thesis by blast
qed

text \<open>
  The claim as stated, that a name is in at most one of the two sets of a block and that
  the last kind recorded replaces the earlier one, fails on \<open>ex_two_loops\<close>: after the
  two declarations \<^verbatim>\<open>a\<close> is in both sets of the block at 0, and the later use of
  \<^verbatim>\<open>a\<close> is reported as an array, the kind recorded first.
\<close>

theorem recording_both_kinds_counterexample:
  "run cfg_default ex_two_loops initial_state
   = Inr \<lparr>blockVariableNameSets =
            [0 \<mapsto> \<lparr>array_set = {Some ''a''}, object_set = {Some ''a''}\<rparr>,
             60 \<mapsto> \<lparr>array_set = {}, object_set = {}\<rparr>],
          reports = [(1, ''Props should not use array allocations'')]\<rparr>"
  by (simp add: cfg_default_def ex_two_loops_def run_simps)

subsection \<open>Entering a block\<close>

text \<open>
  Claim C4, as the code has it. The handler of a block never fails. It stores a fresh
  record with two empty sets under the start of the block, whether or not a record was
  there: a record already stored for the same start, with the names in it, is replaced.
  The records of the other blocks and the diagnostics are left as they were.
\<close>

theorem BlockStatement_overwrites:
  "\<exists>s'. BlockStatement range_start s = Inr s'
        \<and> blockVariableNameSets s' range_start = Some \<lparr>array_set = {}, object_set = {}\<rparr>
        \<and> (\<forall>b. b \<noteq> range_start \<longrightarrow> blockVariableNameSets s' b = blockVariableNameSets s b)
        \<and> reports s' = reports s"
  by (simp add: BlockStatement_def setBlockVariableNameSet_def)

text \<open>
  The block at 10 of \<open>ex_state\<close>, which binds \<^verbatim>\<open>a\<close>, is entered again: no failure, and
  its record is empty afterwards.
\<close>

theorem BlockStatement_overwrites_witness:
  "blockVariableNameSets ex_state 10 = Some \<lparr>array_set = {Some ''a''}, object_set = {}\<rparr>
   \<and> (\<exists>s'. BlockStatement 10 ex_state = Inr s'
        \<and> blockVariableNameSets s' 10 = Some \<lparr>array_set = {}, object_set = {}\<rparr>
        \<and> blockVariableNameSets s' 0 = blockVariableNameSets ex_state 0
        \<and> reports s' = reports ex_state)"
proof -
  from BlockStatement_overwrites [of 10 ex_state]
  obtain s' where "BlockStatement 10 ex_state = Inr s'"
    "blockVariableNameSets s' 10 = Some \<lparr>array_set = {}, object_set = {}\<rparr>"
    "\<forall>b. b \<noteq> 10 \<longrightarrow> blockVariableNameSets s' b = blockVariableNameSets ex_state b"
    "reports s' = reports ex_state" by blast
  moreover have "blockVariableNameSets ex_state 10 = Some \<lparr>array_set = {Some ''a''}, object_set = {}\<rparr>"
    by (simp add: ex_state_def)
  ultimately show ?thesis by simp
qed

text \<open>
  The claim as stated, that entering a block a second time fails, is false on
  \<open>ex_block_twice\<close>: the run ends normally, and the name recorded between the two
  entries is gone.
\<close>

theorem BlockStatement_twice_counterexample:
  "run cfg_default ex_block_twice initial_state
   = Inr \<lparr>blockVariableNameSets = [0 \<mapsto> \<lparr>array_set = {}, object_set = {}\<rparr>], reports = []\<rparr>
   \<and> run cfg_default (butlast ex_block_twice) initial_state
   = Inr \<lparr>blockVariableNameSets = [0 \<mapsto> \<lparr>array_set = {Some ''a''}, object_set = {}\<rparr>],
          reports = []\<rparr>"
  by (simp add: cfg_default_def ex_block_twice_def run_simps)

subsection \<open>The handler of a declarator\<close>

lemma getBlockStatementAncestors_nearest:
  assumes "node_type block = ''BlockStatement''"
    and "\<forall>p \<in> set inner. node_type p \<noteq> ''BlockStatement''"
  shows "getBlockStatementAncestors (outer @ block # inner) =
           block # getBlockStatementAncestors outer"
  using assms by (simp add: getBlockStatementAncestors_def)

lemma getBlockStatementAncestors_none:
  assumes "\<forall>p \<in> set ancestors. node_type p \<noteq> ''BlockStatement''"
  shows "getBlockStatementAncestors ancestors = []"
  using assms by (simp add: getBlockStatementAncestors_def)

text \<open>
  Claim C5. The ancestors of the declarator are given root first, so its nearest
  enclosing block is the last block among them. When the declarator has an initializer
  that the classifier gives a kind, its declaration is a \<^verbatim>\<open>const\<close> and it has an
  enclosing block (entered before, as every ancestor is), the handler adds the name to
  the set of that kind in the record of the nearest enclosing block and changes nothing
  else. When one of the four conditions fails (no initializer, no kind, not
  \<^verbatim>\<open>const\<close>, no enclosing block) the state is returned as it was. In no case is a
  diagnostic added.
\<close>

theorem VariableDeclarator_records:
  "(init node = Some node_init
      \<and> getNodeViolationType cfg node_init = Some t
      \<and> parent_kind node = ''const''
      \<and> ancestors = outer @ block # inner
      \<and> node_type block = ''BlockStatement''
      \<and> (\<forall>p \<in> set inner. node_type p \<noteq> ''BlockStatement'')
      \<and> blockVariableNameSets s (range0 block) = Some bs
    \<longrightarrow> VariableDeclarator cfg node ancestors s =
          Inr (s\<lparr>blockVariableNameSets :=
                 (blockVariableNameSets s)(range0 block \<mapsto> add_name t (id_name node) bs)\<rparr>))
   \<and> (init node = None
        \<or> (\<exists>node_init. init node = Some node_init \<and> getNodeViolationType cfg node_init = None)
        \<or> parent_kind node \<noteq> ''const''
        \<or> (\<forall>p \<in> set ancestors. node_type p \<noteq> ''BlockStatement'')
    \<longrightarrow> VariableDeclarator cfg node ancestors s = Inr s)
   \<and> (\<forall>s'. VariableDeclarator cfg node ancestors s = Inr s' \<longrightarrow> reports s' = reports s)"
proof (intro conjI impI allI)
  assume a: "init node = Some node_init
      \<and> getNodeViolationType cfg node_init = Some t
      \<and> parent_kind node = ''const''
      \<and> ancestors = outer @ block # inner
      \<and> node_type block = ''BlockStatement''
      \<and> (\<forall>p \<in> set inner. node_type p \<noteq> ''BlockStatement'')
      \<and> blockVariableNameSets s (range0 block) = Some bs"
  then have "getBlockStatementAncestors ancestors = block # getBlockStatementAncestors outer"
    by (simp add: getBlockStatementAncestors_nearest)
  with a show "VariableDeclarator cfg node ancestors s =
          Inr (s\<lparr>blockVariableNameSets :=
                 (blockVariableNameSets s)(range0 block \<mapsto> add_name t (id_name node) bs)\<rparr>)"
    by (simp add: VariableDeclarator_def addVariableNameToSet_def)
next
  assume "init node = None
        \<or> (\<exists>node_init. init node = Some node_init \<and> getNodeViolationType cfg node_init = None)
        \<or> parent_kind node \<noteq> ''const''
        \<or> (\<forall>p \<in> set ancestors. node_type p \<noteq> ''BlockStatement'')"
  then show "VariableDeclarator cfg node ancestors s = Inr s"
    by (auto simp: VariableDeclarator_def getBlockStatementAncestors_none
        split: option.splits list.splits)
next
  fix s' assume "VariableDeclarator cfg node ancestors s = Inr s'"
  then show "reports s' = reports s"
    by (auto simp: VariableDeclarator_def addVariableNameToSet_def
        split: option.splits list.splits if_splits)
qed

text \<open>
  \<^verbatim>\<open>const style = {}\<close> inside the blocks at 0 and 10 of \<open>ex_state\<close> is recorded as an
  object in the block at 10; the same declaration with \<^verbatim>\<open>let\<close> is not recorded.
\<close>

theorem VariableDeclarator_records_witness:
  "VariableDeclarator cfg_default
      \<lparr>init = Some (ObjectExpression []), id_name = Some ''style'', parent_kind = ''const''\<rparr>
      [other_node ''Program'' 0, blk 0, blk 10, other_node ''VariableDeclaration'' 12] ex_state
     = Inr (ex_state\<lparr>blockVariableNameSets := (blockVariableNameSets ex_state)
         (10 \<mapsto> \<lparr>array_set = {Some ''a''}, object_set = {Some ''style''}\<rparr>)\<rparr>)
   \<and> VariableDeclarator cfg_default
      \<lparr>init = Some (ObjectExpression []), id_name = Some ''style'', parent_kind = ''let''\<rparr>
      [other_node ''Program'' 0, blk 0, blk 10, other_node ''VariableDeclaration'' 12] ex_state
     = Inr ex_state"
proof -
  have 1: "VariableDeclarator cfg_default
      \<lparr>init = Some (ObjectExpression []), id_name = Some ''style'', parent_kind = ''const''\<rparr>
      [other_node ''Program'' 0, blk 0, blk 10, other_node ''VariableDeclaration'' 12] ex_state
     = Inr (ex_state\<lparr>blockVariableNameSets := (blockVariableNameSets ex_state)
         (10 \<mapsto> \<lparr>array_set = {Some ''a''}, object_set = {Some ''style''}\<rparr>)\<rparr>)"
    using VariableDeclarator_records
      [of "\<lparr>init = Some (ObjectExpression []), id_name = Some ''style'', parent_kind = ''const''\<rparr>"
          "ObjectExpression []" cfg_default object
          "[other_node ''Program'' 0, blk 0, blk 10, other_node ''VariableDeclaration'' 12]"
          "[other_node ''Program'' 0, blk 0]" "blk 10" "[other_node ''VariableDeclaration'' 12]"
          ex_state "\<lparr>array_set = {Some ''a''}, object_set = {}\<rparr>"]
    by (simp add: cfg_default_def ex_state_def blk_def other_node_def)
  have 2: "VariableDeclarator cfg_default
      \<lparr>init = Some (ObjectExpression []), id_name = Some ''style'', parent_kind = ''let''\<rparr>
      [other_node ''Program'' 0, blk 0, blk 10, other_node ''VariableDeclaration'' 12] ex_state
     = Inr ex_state"
    using VariableDeclarator_records
      [of "\<lparr>init = Some (ObjectExpression []), id_name = Some ''style'', parent_kind = ''let''\<rparr>"
          "ObjectExpression []" cfg_default object
          "[other_node ''Program'' 0, blk 0, blk 10, other_node ''VariableDeclaration'' 12]"
          "[other_node ''Program'' 0, blk 0]" "blk 10" "[other_node ''VariableDeclaration'' 12]"
          ex_state "\<lparr>array_set = {Some ''a''}, object_set = {}\<rparr>"]
    by simp
  from 1 2 show ?thesis by simp
qed

subsection \<open>Only the enclosing blocks are consulted\<close>

lemma find_violationType_None: 
  "fst (find_violationType node n bs ts s) = None \<Longrightarrow> snd (find_violationType node n bs ts s) = s"
  by (induction ts) (auto split: if_splits)

lemma find_violationType_fst:
  "fst (find_violationType node n bs ts s1) = fst (find_violationType node n bs ts s2)"
  by (induction ts) auto

lemma find_violationType_snd_reports:
  "reports s1 = reports s2 \<Longrightarrow> 
   reports (snd (find_violationType node n bs ts s1)) = reports (snd (find_violationType node n bs ts s2))"
  by (induction ts) (auto simp: context_report_def)

lemma find_violationType_snd_sets:
  "blockVariableNameSets (snd (find_violationType node n bs ts s)) = blockVariableNameSets s"
  by (induction ts) (auto simp: context_report_def)

lemma find_block_only_chain:
  assumes "\<forall>a \<in> set blocks. blockVariableNameSets s1 (range0 a) = blockVariableNameSets s2 (range0 a)"
    and "reports s1 = reports s2"
  shows "reported (find_block node n blocks s1)
       = reported (find_block node n blocks s2)"
  using assms
proof (induction blocks arbitrary: s1 s2)
  case Nil
  then show ?case by simp
next
  case (Cons block blocks)
  show ?case
  proof (cases "blockVariableNameSets s1 (range0 block)")
    case None
    with Cons.prems show ?thesis by (simp add: reportVariableViolation_def)
  next
    case (Some bs)
    with Cons.prems have s2: "blockVariableNameSets s2 (range0 block) = Some bs" by simp
    let ?r1 = "find_violationType node n bs [array, object] s1"
    let ?r2 = "find_violationType node n bs [array, object] s2"
    have f: "fst ?r1 = fst ?r2" by (rule find_violationType_fst)
    have r: "reports (snd ?r1) = reports (snd ?r2)"
      using Cons.prems(2) by (rule find_violationType_snd_reports)
    show ?thesis
    proof (cases "fst ?r1")
      case None
      then have e1: "?r1 = (None, s1)" using find_violationType_None [of node n bs "[array, object]" s1]
        by (metis prod.collapse)
      from None f have "fst ?r2 = None" by simp
      then have e2: "?r2 = (None, s2)" using find_violationType_None [of node n bs "[array, object]" s2]
        by (metis prod.collapse)
      from Cons.IH [of s1 s2] Cons.prems
      have "reported (find_block node n blocks s1)
          = reported (find_block node n blocks s2)" by simp
      with Some s2 e1 e2 show ?thesis by (simp add: reportVariableViolation_def)
    next
      case (Some t)
      then obtain s1' where e1: "?r1 = (Some t, s1')" by (metis prod.collapse)
      from Some f obtain s2' where e2: "?r2 = (Some t, s2')" by (metis prod.collapse)
      from r e1 e2 have "reports s1' = reports s2'" by simp
      with \<open>blockVariableNameSets s1 (range0 block) = Some bs\<close> s2 e1 e2 show ?thesis
        by (simp add: reportVariableViolation_def)
    qed
  qed
qed

text \<open>
  Claim C8. What the walk for an identifier reports, or that it throws, depends on the
  table only through the records of the blocks among the ancestors of the usage site: in
  two states that hold the same record for each of these blocks (and the same
  diagnostics so far) the outcome is the same, whatever the records of all other blocks,
  siblings and descendants included, hold in either state.
\<close>

theorem findVariableViolation_only_ancestors:
  "(\<forall>a \<in> set ancestors. node_type a = ''BlockStatement'' \<longrightarrow>
       blockVariableNameSets s1 (range0 a) = blockVariableNameSets s2 (range0 a))
   \<and> reports s1 = reports s2
   \<longrightarrow> reported (findVariableViolation node n ancestors s1)
       = reported (findVariableViolation node n ancestors s2)"
  unfolding findVariableViolation_def
  by (intro impI find_block_only_chain) (simp_all add: set_getBlockStatementAncestors)

text \<open>
  A site inside the blocks at 0 and 10 uses \<^verbatim>\<open>c\<close>. Binding \<^verbatim>\<open>c\<close> to an array in the
  block at 20, which does not enclose the site, leaves the site without a diagnostic.
\<close>

theorem findVariableViolation_only_ancestors_witness:
  "reported (findVariableViolation 7 (Some ''c'') [other_node ''Program'' 0, blk 0, blk 10]
       (ex_state\<lparr>blockVariableNameSets := (blockVariableNameSets ex_state)
          (20 \<mapsto> \<lparr>array_set = {Some ''c''}, object_set = {}\<rparr>)\<rparr>))
     = Inr []
   \<and> reported (findVariableViolation 7 (Some ''c'') [other_node ''Program'' 0, blk 0, blk 10]
       ex_state)
     = Inr []"
proof -
  have here: "reported (findVariableViolation 7 (Some ''c'')
       [other_node ''Program'' 0, blk 0, blk 10] ex_state) = Inr []"
    by (simp add: ex_state_def run_simps)
  from findVariableViolation_only_ancestors
    [of "[other_node ''Program'' 0, blk 0, blk 10]"
        "ex_state\<lparr>blockVariableNameSets := (blockVariableNameSets ex_state)
          (20 \<mapsto> \<lparr>array_set = {Some ''c''}, object_set = {}\<rparr>)\<rparr>"
        ex_state 7 "Some ''c''"]
  have "reported (findVariableViolation 7 (Some ''c'') [other_node ''Program'' 0, blk 0, blk 10]
       (ex_state\<lparr>blockVariableNameSets := (blockVariableNameSets ex_state)
          (20 \<mapsto> \<lparr>array_set = {Some ''c''}, object_set = {}\<rparr>)\<rparr>))
     = reported (findVariableViolation 7 (Some ''c'')
         [other_node ''Program'' 0, blk 0, blk 10] ex_state)"
    by (simp add: blk_def other_node_def)
  with here show ?thesis by simp
qed

subsection \<open>What a usage site adds to the diagnostics\<close>

lemma find_violationType_grows:
  "find_violationType node n bs ts s = (r, s') \<Longrightarrow>
     blockVariableNameSets s' = blockVariableNameSets s
     \<and> (case r of None \<Rightarrow> s' = s
         | Some t \<Rightarrow> reports s' = reports s @ [(node, violationMessageStore t)])"
  by (induction ts) (auto simp: context_report_def split: if_splits)

lemma find_block_grows:
  "find_block node n blocks s = Inr s' \<Longrightarrow>
     blockVariableNameSets s' = blockVariableNameSets s
     \<and> (\<exists>new. reports s' = reports s @ new \<and> length new \<le> 1)"
proof (induction blocks arbitrary: s)
  case Nil
  then show ?case by simp
next
  case (Cons block blocks)
  from Cons.prems obtain bs where bs: "blockVariableNameSets s (range0 block) = Some bs"
    by (auto simp: reportVariableViolation_def split: option.splits)
  obtain r s1 where f: "find_violationType node n bs [array, object] s = (r, s1)"
    by (cases "find_violationType node n bs [array, object] s")
  note g = find_violationType_grows [OF f]
  show ?case
  proof (cases r)
    case None
    with g have "s1 = s" by simp
    with Cons.prems bs f None have "find_block node n blocks s = Inr s'"
      by (simp add: reportVariableViolation_def)
    then show ?thesis by (rule Cons.IH)
  next
    case (Some t)
    with Cons.prems bs f have "s' = s1" by (simp add: reportVariableViolation_def)
    with g Some show ?thesis by simp
  qed
qed

lemma findVariableViolation_grows:
  "findVariableViolation node n ancestors s = Inr s' \<Longrightarrow>
     blockVariableNameSets s' = blockVariableNameSets s
     \<and> (\<exists>new. reports s' = reports s @ new \<and> length new \<le> 1)"
  unfolding findVariableViolation_def by (rule find_block_grows)

lemma JSXAttribute_grows:
  assumes "JSXAttribute cfg node ancestors s = Inr s'"
  shows "\<exists>new. reports s' = reports s @ new \<and> length new \<le> 1"
proof (cases "ignoreDOMComponents cfg \<and> parent_isDOMComponent node")
  case True
  with assms show ?thesis by (simp add: JSXAttribute_def)
next
  case False
  with assms obtain valueNode where v: "attribute_value node = JSXExpressionContainer valueNode"
    by (cases "attribute_value node") (auto simp: JSXAttribute_def)
  show ?thesis
  proof (cases "\<exists>x. valueNode = Identifier x")
    case True
    then obtain x where "valueNode = Identifier x" by blast
    with assms False v
    have "findVariableViolation (attribute_node node) (Some x) ancestors s = Inr s'"
      by (simp add: JSXAttribute_def)
    then show ?thesis by (blast dest: findVariableViolation_grows)
  next
    case notid: False
    with assms False v show ?thesis
      by (cases valueNode; cases "getNodeViolationType cfg valueNode")
         (auto simp: JSXAttribute_def context_report_def split: if_splits)
  qed
qed

lemma CallExpression_prop_grows:
  assumes "CallExpression_prop cfg node ancestors prop s = Inr s'"
  shows "blockVariableNameSets s' = blockVariableNameSets s
     \<and> (\<exists>new. reports s' = reports s @ new \<and> length new \<le> 1)"
proof (cases "snd prop")
  case None
  with assms show ?thesis by (simp add: CallExpression_prop_def)
next
  case (Some v)
  show ?thesis
  proof (cases "\<exists>x. v = Identifier x")
    case True
    then obtain x where "v = Identifier x" by blast
    with assms Some have "findVariableViolation node (Some x) ancestors s = Inr s'"
      by (simp add: CallExpression_prop_def)
    then show ?thesis by (rule findVariableViolation_grows)
  next
    case False
    with assms Some show ?thesis
      by (cases v; cases "getNodeViolationType cfg v")
         (auto simp: CallExpression_prop_def context_report_def split: if_splits)
  qed
qed

lemma forEach_prop_grows:
  "forEach_prop cfg node ancestors props s = Inr s' \<Longrightarrow>
     \<exists>new. reports s' = reports s @ new \<and> length new \<le> length props"
proof (induction props arbitrary: s)
  case Nil
  then show ?case by simp
next
  case (Cons p ps)
  from Cons.prems obtain s1 where 1: "CallExpression_prop cfg node ancestors p s = Inr s1"
    and 2: "forEach_prop cfg node ancestors ps s1 = Inr s'"
    by (auto split: sum.splits)
  from CallExpression_prop_grows [OF 1] obtain new1 where
    n1: "reports s1 = reports s @ new1" "length new1 \<le> 1" by blast
  from Cons.IH [OF 2] obtain new2 where
    n2: "reports s' = reports s1 @ new2" "length new2 \<le> length ps" by blast
  from n1 n2 have "reports s' = reports s @ (new1 @ new2) \<and> length (new1 @ new2) \<le> length (p # ps)"
    by simp
  then show ?case by blast
qed

lemma dispatch_grows:
  assumes "dispatch cfg e s = Inr s'"
  shows "\<exists>new. reports s' = reports s @ new \<and> length new \<le> usage_sites e"
proof (cases e)
  case (BlockStatement_event b)
  with assms show ?thesis by (auto simp: BlockStatement_def setBlockVariableNameSet_def)
next
  case (VariableDeclarator_event node ancestors)
  with assms show ?thesis
    by (auto simp: VariableDeclarator_def split: option.splits list.splits if_splits
        dest: addVariableNameToSet_reports)
next
  case (JSXAttribute_event node ancestors)
  with assms JSXAttribute_grows [of cfg node ancestors s s'] show ?thesis by simp
next
  case (CallExpression_event node ancestors)
  show ?thesis
  proof (cases "\<exists>tag properties args.
      arguments node = tag # ObjectExpression properties # args")
    case True
    then obtain tag properties args where
      a: "arguments node = tag # ObjectExpression properties # args" by blast
    from assms CallExpression_event a
    have "s' = s \<or> forEach_prop cfg (call_node node) ancestors properties s = Inr s'"
      by (auto simp: CallExpression_def split: if_splits)
    with forEach_prop_grows [of cfg "call_node node" ancestors properties s s']
      CallExpression_event a show ?thesis by auto
  next
    case False
    with assms CallExpression_event have "s' = s"
      by (cases "arguments node")
         (auto simp: CallExpression_def split: if_splits list.splits expr.splits)
    then show ?thesis by simp
  qed
qed

lemma run_grows:
  "run cfg es s = Inr s' \<Longrightarrow>
     \<exists>new. reports s' = reports s @ new \<and> length new \<le> sum_list (map usage_sites es)"
proof (induction es arbitrary: s)
  case Nil
  then show ?case by simp
next
  case (Cons e es)
  from Cons.prems obtain s1 where 1: "dispatch cfg e s = Inr s1"
    and 2: "run cfg es s1 = Inr s'" by (auto split: sum.splits)
  from dispatch_grows [OF 1] obtain new1 where
    n1: "reports s1 = reports s @ new1" "length new1 \<le> usage_sites e" by blast
  from Cons.IH [OF 2] obtain new2 where
    n2: "reports s' = reports s1 @ new2" "length new2 \<le> sum_list (map usage_sites es)"
    by blast
  from n1 n2 have "reports s' = reports s @ (new1 @ new2)
      \<and> length (new1 @ new2) \<le> sum_list (map usage_sites (e # es))" by simp
  then show ?case by blast
qed

text \<open>
  Claim C9. The walk for an identifier adds at most one diagnostic; so does the handler
  of an attribute, and so does the callback run on one property of the properties object
  of a factory call, on either path (identifier or direct classification). Hence the
  loop over the properties adds at most as many diagnostics as there are properties,
  and a whole run adds at most as many diagnostics as it visits usage sites.
\<close>

theorem one_diagnostic_per_site:
  "(\<forall>s'. findVariableViolation node n ancestors s = Inr s' \<longrightarrow>
        (\<exists>new. reports s' = reports s @ new \<and> length new \<le> 1))
   \<and> (\<forall>s'. JSXAttribute cfg attr ancestors s = Inr s' \<longrightarrow>
        (\<exists>new. reports s' = reports s @ new \<and> length new \<le> 1))
   \<and> (\<forall>s'. CallExpression_prop cfg node ancestors p s = Inr s' \<longrightarrow>
        (\<exists>new. reports s' = reports s @ new \<and> length new \<le> 1))
   \<and> (\<forall>s'. forEach_prop cfg node ancestors ps s = Inr s' \<longrightarrow>
        (\<exists>new. reports s' = reports s @ new \<and> length new \<le> length ps))
   \<and> (\<forall>s'. run cfg events s = Inr s' \<longrightarrow>
        (\<exists>new. reports s' = reports s @ new
           \<and> length new \<le> sum_list (map usage_sites events)))"
  by (blast dest: findVariableViolation_grows JSXAttribute_grows CallExpression_prop_grows
      forEach_prop_grows run_grows)

text \<open>
  The run over \<open>ex_events\<close> visits four usage sites and reports four diagnostics, one
  for each; the attribute \<^verbatim>\<open>bar={a}\<close> inside the blocks at 0, 10 and 20 of \<open>ex_state\<close>,
  where two enclosing blocks bind \<^verbatim>\<open>a\<close>, adds one diagnostic.
\<close>

theorem one_diagnostic_per_site_witness:
  "sum_list (map usage_sites ex_events) = 4
   \<and> (\<exists>s'. run cfg_default ex_events initial_state = Inr s' \<and> length (reports s') = 4)
   \<and> (\<exists>s'. JSXAttribute cfg_default
              \<lparr>attribute_node = 7, parent_isDOMComponent = False,
                 attribute_value = JSXExpressionContainer (Identifier ''a'')\<rparr>
              [other_node ''Program'' 0, blk 0, blk 10, blk 20] ex_state = Inr s'
           \<and> length (reports s') = 1)"
proof -
  have sites: "sum_list (map usage_sites ex_events) = 4"
    by (simp add: ex_events_def)
  have r: "run cfg_default ex_events initial_state =
     Inr \<lparr>blockVariableNameSets =
            [40 \<mapsto> \<lparr>array_set = {Some ''bar''}, object_set = {Some ''style''}\<rparr>],
          reports = [(1, ''Props should not use array allocations''),
                     (2, ''Props should not use object allocations''),
                     (4, ''Props should not use array allocations''),
                     (5, ''Props should not use object allocations'')]\<rparr>"
    by (simp add: cfg_default_def ex_events_def run_simps)
  have a: "JSXAttribute cfg_default
              \<lparr>attribute_node = 7, parent_isDOMComponent = False,
                 attribute_value = JSXExpressionContainer (Identifier ''a'')\<rparr>
              [other_node ''Program'' 0, blk 0, blk 10, blk 20] ex_state
     = Inr (ex_state\<lparr>reports := [(7, ''Props should not use array allocations'')]\<rparr>)"
    by (simp add: cfg_default_def ex_state_def run_simps)
  from one_diagnostic_per_site
    [where cfg = cfg_default and ancestors = "[other_node ''Program'' 0, blk 0, blk 10, blk 20]"
       and s = ex_state
       and attr = "\<lparr>attribute_node = 7, parent_isDOMComponent = False,
           attribute_value = JSXExpressionContainer (Identifier ''a'')\<rparr>"] a
  have "\<exists>new. reports (ex_state\<lparr>reports := [(7, ''Props should not use array allocations'')]\<rparr>)
           = reports ex_state @ new \<and> length new \<le> 1"
    by blast
  with sites r a show ?thesis by simp
qed

subsection \<open>Ignoring DOM components\<close>

text \<open>What the two handlers do at a usage site, written out.\<close>

lemma findVariableViolation_hit:
  assumes "ancestors = outer @ block # inner"
    and "node_type block = ''BlockStatement''"
    and "\<forall>p \<in> set inner. node_type p = ''BlockStatement'' \<longrightarrow>
            (\<exists>ps. blockVariableNameSets s (range0 p) = Some ps
                  \<and> n \<notin> array_set ps \<and> n \<notin> object_set ps)"
    and "blockVariableNameSets s (range0 block) = Some bs"
    and "n \<in> array_set bs \<or> n \<in> object_set bs"
  shows "findVariableViolation node n ancestors s =
          Inr (context_report node
                 (violationMessageStore (if n \<in> array_set bs then array else object)) s)"
proof -
  from assms(3) have miss: "\<forall>p \<in> set (getBlockStatementAncestors inner).
      \<exists>ps. blockVariableNameSets s (range0 p) = Some ps \<and> n \<notin> array_set ps \<and> n \<notin> object_set ps"
    by (simp add: set_getBlockStatementAncestors)
  from assms(1,2) have chain: "getBlockStatementAncestors ancestors =
      getBlockStatementAncestors inner @ block # getBlockStatementAncestors outer"
    by (simp add: getBlockStatementAncestors_append)
  show ?thesis
    unfolding findVariableViolation_def chain
    by (simp only: find_block_append_miss [OF miss] find_block_hit [OF assms(4,5)])
qed

lemma CallExpression_prop_explicit:
  "CallExpression_prop cfg node ancestors p s =
     (case snd p of
        None \<Rightarrow> Inr s
      | Some (Identifier x) \<Rightarrow> findVariableViolation node (Some x) ancestors s
      | Some v \<Rightarrow>
          (case getNodeViolationType cfg v of
             Some t \<Rightarrow> Inr (context_report (fst p) (violationMessageStore t) s)
           | None \<Rightarrow> Inr s))"
  by (simp add: CallExpression_prop_def split: option.splits expr.splits)

lemma fold_thrown:
  "fold (\<lambda>p r. case r of Inl e \<Rightarrow> Inl e | Inr s' \<Rightarrow> f p s') ps (Inl e) = Inl e"
  by (induction ps) simp_all

lemma forEach_prop_fold:
  "forEach_prop cfg node ancestors ps s =
     fold (\<lambda>p r. case r of
                   Inl e \<Rightarrow> Inl e
                 | Inr s' \<Rightarrow> CallExpression_prop cfg node ancestors p s') ps (Inr s)"
proof (induction ps arbitrary: s)
  case Nil
  then show ?case by simp
next
  case (Cons p ps)
  show ?case
  proof (cases "CallExpression_prop cfg node ancestors p s")
    case (Inl e)
    then show ?thesis by (simp add: fold_thrown)
  next
    case (Inr s1)
    with Cons.IH [of s1] show ?thesis by simp
  qed
qed

lemma CallExpression_prop_table:
  assumes "CallExpression_prop cfg node ancestors p s = Inr s'"
  shows "blockVariableNameSets s' = blockVariableNameSets s
     \<and> set (reports s) \<subseteq> set (reports s')"
proof (cases "\<exists>x. snd p = Some (Identifier x)")
  case True
  then obtain x where "snd p = Some (Identifier x)" by blast
  with assms have "find_block node (Some x) (getBlockStatementAncestors ancestors) s = Inr s'"
    by (simp add: CallExpression_prop_explicit findVariableViolation_def)
  from find_block_grows [OF this] show ?thesis by auto
next
  case False
  with assms show ?thesis
    by (auto simp: CallExpression_prop_explicit context_report_def
        split: option.splits expr.splits)
qed

lemma forEach_prop_table:
  "forEach_prop cfg node ancestors ps s = Inr s' \<Longrightarrow>
     blockVariableNameSets s' = blockVariableNameSets s
     \<and> set (reports s) \<subseteq> set (reports s')"
proof (induction ps arbitrary: s)
  case Nil
  then show ?case by simp
next
  case (Cons p ps)
  from Cons.prems obtain s1 where 1: "CallExpression_prop cfg node ancestors p s = Inr s1"
    and 2: "forEach_prop cfg node ancestors ps s1 = Inr s'"
    by (auto split: sum.splits)
  from CallExpression_prop_table [OF 1] Cons.IH [OF 2] show ?case by auto
qed

lemma forEach_prop_member:
  "forEach_prop cfg node ancestors ps s = Inr s' \<Longrightarrow> p \<in> set ps \<Longrightarrow>
     \<exists>s1 s2. blockVariableNameSets s1 = blockVariableNameSets s
        \<and> CallExpression_prop cfg node ancestors p s1 = Inr s2
        \<and> set (reports s2) \<subseteq> set (reports s')"
proof (induction ps arbitrary: s)
  case Nil
  then show ?case by simp
next
  case (Cons q ps)
  from Cons.prems(1) obtain s1 where 1: "CallExpression_prop cfg node ancestors q s = Inr s1"
    and 2: "forEach_prop cfg node ancestors ps s1 = Inr s'"
    by (auto split: sum.splits)
  show ?case
  proof (cases "p = q")
    case True
    from forEach_prop_table [OF 2] have "set (reports s1) \<subseteq> set (reports s')" by simp
    with 1 True show ?thesis by blast
  next
    case False
    with Cons.prems(2) have "p \<in> set ps" by simp
    from Cons.IH [OF 2 this] obtain t1 t2 where
      "blockVariableNameSets t1 = blockVariableNameSets s1"
      "CallExpression_prop cfg node ancestors p t1 = Inr t2"
      "set (reports t2) \<subseteq> set (reports s')" by blast
    moreover from CallExpression_prop_table [OF 1]
    have "blockVariableNameSets s1 = blockVariableNameSets s" by simp
    ultimately show ?thesis by auto
  qed
qed

lemma forEach_prop_reports_Identifier:
  assumes "forEach_prop cfg node ancestors ps s = Inr s'"
    and "(pn, Some (Identifier x)) \<in> set ps"
    and "ancestors = outer @ block # inner"
    and "node_type block = ''BlockStatement''"
    and "\<forall>p \<in> set inner. node_type p = ''BlockStatement'' \<longrightarrow>
            (\<exists>ps. blockVariableNameSets s (range0 p) = Some ps
                  \<and> Some x \<notin> array_set ps \<and> Some x \<notin> object_set ps)"
    and "blockVariableNameSets s (range0 block) = Some bs"
    and "Some x \<in> array_set bs \<or> Some x \<in> object_set bs"
  shows "(node, violationMessageStore (if Some x \<in> array_set bs then array else object))
           \<in> set (reports s')"
proof -
  from forEach_prop_member [OF assms(1,2)] obtain s1 s2 where
    table: "blockVariableNameSets s1 = blockVariableNameSets s"
    and step: "CallExpression_prop cfg node ancestors (pn, Some (Identifier x)) s1 = Inr s2"
    and sub: "set (reports s2) \<subseteq> set (reports s')" by blast
  from assms(5,6) table have
    "\<forall>p \<in> set inner. node_type p = ''BlockStatement'' \<longrightarrow>
            (\<exists>ps. blockVariableNameSets s1 (range0 p) = Some ps
                  \<and> Some x \<notin> array_set ps \<and> Some x \<notin> object_set ps)"
    "blockVariableNameSets s1 (range0 block) = Some bs" by simp_all
  from findVariableViolation_hit [OF assms(3,4) this assms(7), of node] step
  have "s2 = context_report node
      (violationMessageStore (if Some x \<in> array_set bs then array else object)) s1"
    by (simp add: CallExpression_prop_explicit)
  then have "(node, violationMessageStore (if Some x \<in> array_set bs then array else object))
           \<in> set (reports s2)"
    by (simp add: context_report_def)
  with sub show ?thesis by blast
qed

lemma forEach_prop_reports_direct:
  assumes "forEach_prop cfg node ancestors ps s = Inr s'"
    and "(pn, Some v) \<in> set ps"
    and "\<forall>x. v \<noteq> Identifier x"
    and "getNodeViolationType cfg v = Some t"
  shows "(pn, violationMessageStore t) \<in> set (reports s')"
proof -
  from forEach_prop_member [OF assms(1,2)] obtain s1 s2 where
    step: "CallExpression_prop cfg node ancestors (pn, Some v) s1 = Inr s2"
    and sub: "set (reports s2) \<subseteq> set (reports s')" by blast
  from step assms(3,4) have "s2 = context_report pn (violationMessageStore t) s1"
    by (cases v) (auto simp: CallExpression_prop_explicit)
  then have "(pn, violationMessageStore t) \<in> set (reports s2)"
    by (simp add: context_report_def)
  with sub show ?thesis by blast
qed

lemma CallExpression_proceeds:
  assumes "\<not> (ignoreDOMComponents cfg \<and> tag = Literal)"
    and "isCreateElement call"
    and "arguments call = tag # ObjectExpression properties # args"
  shows "CallExpression cfg call ancestors s =
           forEach_prop cfg (call_node call) ancestors properties s"
  using assms by (auto simp: CallExpression_def)

text \<open>
  Claim C6. With \<open>ignoreDOMComponents\<close> true, the handler of an attribute whose owner is
  a DOM component returns the state as it was, and so does the handler of a call whose
  first argument is a literal. In every other case the sites are resolved.

  For an attribute with an expression value, an identifier is looked up in the enclosing
  blocks and any other expression is classified and, when it has a kind, reported at the
  attribute. For a factory call with a properties object, the properties are taken in
  order, starting from the state at the call, until one throws: a property without a
  value is passed over, a property whose value is an identifier is looked up in the
  enclosing blocks of the call (and reported at the call), and any other value is
  classified and, when it has a kind, reported at the property.

  So, for an identifier that the nearest enclosing block holding it binds to a kind: the
  attribute handler reports that kind at the attribute, and a factory call that ends
  normally has reported that kind at the call for every property whose value is that
  identifier. A factory call that ends normally has also reported, at the property, the
  kind of every property whose value is not an identifier and has a kind.
\<close>

theorem ignoreDOMComponents_skips:
  "(ignoreDOMComponents cfg \<and> parent_isDOMComponent attr
      \<longrightarrow> JSXAttribute cfg attr ancestors s = Inr s)
   \<and> (ignoreDOMComponents cfg \<and> arguments call = Literal # args
      \<longrightarrow> CallExpression cfg call ancestors s = Inr s)
   \<and> (\<not> (ignoreDOMComponents cfg \<and> parent_isDOMComponent attr)
        \<and> attribute_value attr = JSXExpressionContainer valueNode
      \<longrightarrow> JSXAttribute cfg attr ancestors s =
            (case valueNode of
               Identifier x \<Rightarrow> findVariableViolation (attribute_node attr) (Some x) ancestors s
             | _ \<Rightarrow>
               (case getNodeViolationType cfg valueNode of
                  Some t \<Rightarrow> Inr (context_report (attribute_node attr) (violationMessageStore t) s)
                | None \<Rightarrow> Inr s)))
   \<and> (\<not> (ignoreDOMComponents cfg \<and> tag = Literal)
        \<and> isCreateElement call
        \<and> arguments call = tag # ObjectExpression properties # args
      \<longrightarrow> CallExpression cfg call ancestors s =
            fold (\<lambda>p r. case r of
                    Inl e \<Rightarrow> Inl e
                  | Inr s1 \<Rightarrow>
                      (case snd p of
                         None \<Rightarrow> Inr s1
                       | Some (Identifier x) \<Rightarrow>
                           findVariableViolation (call_node call) (Some x) ancestors s1
                       | Some v \<Rightarrow>
                           (case getNodeViolationType cfg v of
                              Some t \<Rightarrow>
                                Inr (context_report (fst p) (violationMessageStore t) s1)
                            | None \<Rightarrow> Inr s1)))
              properties (Inr s))
   \<and> (ancestors = outer @ block # inner
        \<and> node_type block = ''BlockStatement''
        \<and> (\<forall>p \<in> set inner. node_type p = ''BlockStatement'' \<longrightarrow>
              (\<exists>ps. blockVariableNameSets s (range0 p) = Some ps
                    \<and> Some name \<notin> array_set ps \<and> Some name \<notin> object_set ps))
        \<and> blockVariableNameSets s (range0 block) = Some bs
        \<and> (Some name \<in> array_set bs \<or> Some name \<in> object_set bs)
      \<longrightarrow> (\<not> (ignoreDOMComponents cfg \<and> parent_isDOMComponent attr)
              \<and> attribute_value attr = JSXExpressionContainer (Identifier name)
            \<longrightarrow> JSXAttribute cfg attr ancestors s =
                  Inr (context_report (attribute_node attr)
                         (violationMessageStore
                            (if Some name \<in> array_set bs then array else object)) s))
          \<and> (\<not> (ignoreDOMComponents cfg \<and> tag = Literal)
              \<and> isCreateElement call
              \<and> arguments call = tag # ObjectExpression properties # args
              \<and> CallExpression cfg call ancestors s = Inr s'
              \<and> (pn, Some (Identifier name)) \<in> set properties
            \<longrightarrow> (call_node call,
                   violationMessageStore (if Some name \<in> array_set bs then array else object))
                  \<in> set (reports s')))
   \<and> (\<not> (ignoreDOMComponents cfg \<and> tag = Literal)
        \<and> isCreateElement call
        \<and> arguments call = tag # ObjectExpression properties # args
        \<and> CallExpression cfg call ancestors s = Inr s'
        \<and> (pn, Some v) \<in> set properties
        \<and> (\<forall>x. v \<noteq> Identifier x)
        \<and> getNodeViolationType cfg v = Some t
      \<longrightarrow> (pn, violationMessageStore t) \<in> set (reports s'))"
proof (intro conjI impI)
  assume "ignoreDOMComponents cfg \<and> parent_isDOMComponent attr"
  then show "JSXAttribute cfg attr ancestors s = Inr s" by (simp add: JSXAttribute_def)
next
  assume "ignoreDOMComponents cfg \<and> arguments call = Literal # args"
  then show "CallExpression cfg call ancestors s = Inr s" by (simp add: CallExpression_def)
next
  assume "\<not> (ignoreDOMComponents cfg \<and> parent_isDOMComponent attr)
        \<and> attribute_value attr = JSXExpressionContainer valueNode"
  then show "JSXAttribute cfg attr ancestors s =
            (case valueNode of
               Identifier x \<Rightarrow> findVariableViolation (attribute_node attr) (Some x) ancestors s
             | _ \<Rightarrow>
               (case getNodeViolationType cfg valueNode of
                  Some t \<Rightarrow> Inr (context_report (attribute_node attr) (violationMessageStore t) s)
                | None \<Rightarrow> Inr s))"
    by (auto simp: JSXAttribute_def split: expr.splits)
next
  assume "\<not> (ignoreDOMComponents cfg \<and> tag = Literal)
        \<and> isCreateElement call
        \<and> arguments call = tag # ObjectExpression properties # args"
  then have "CallExpression cfg call ancestors s =
           forEach_prop cfg (call_node call) ancestors properties s"
    by (auto simp: CallExpression_def)
  then show "CallExpression cfg call ancestors s =
            fold (\<lambda>p r. case r of
                    Inl e \<Rightarrow> Inl e
                  | Inr s1 \<Rightarrow>
                      (case snd p of
                         None \<Rightarrow> Inr s1
                       | Some (Identifier x) \<Rightarrow>
                           findVariableViolation (call_node call) (Some x) ancestors s1
                       | Some v \<Rightarrow>
                           (case getNodeViolationType cfg v of
                              Some t \<Rightarrow>
                                Inr (context_report (fst p) (violationMessageStore t) s1)
                            | None \<Rightarrow> Inr s1)))
              properties (Inr s)"
    by (simp only: forEach_prop_fold CallExpression_prop_explicit)
next
  assume hit: "ancestors = outer @ block # inner
        \<and> node_type block = ''BlockStatement''
        \<and> (\<forall>p \<in> set inner. node_type p = ''BlockStatement'' \<longrightarrow>
              (\<exists>ps. blockVariableNameSets s (range0 p) = Some ps
                    \<and> Some name \<notin> array_set ps \<and> Some name \<notin> object_set ps))
        \<and> blockVariableNameSets s (range0 block) = Some bs
        \<and> (Some name \<in> array_set bs \<or> Some name \<in> object_set bs)"
  from hit have h1: "ancestors = outer @ block # inner"
    and h2: "node_type block = ''BlockStatement''"
    and h3: "\<forall>p \<in> set inner. node_type p = ''BlockStatement'' \<longrightarrow>
              (\<exists>ps. blockVariableNameSets s (range0 p) = Some ps
                    \<and> Some name \<notin> array_set ps \<and> Some name \<notin> object_set ps)"
    and h4: "blockVariableNameSets s (range0 block) = Some bs"
    and h5: "Some name \<in> array_set bs \<or> Some name \<in> object_set bs"
    by blast+
  assume "\<not> (ignoreDOMComponents cfg \<and> parent_isDOMComponent attr)
              \<and> attribute_value attr = JSXExpressionContainer (Identifier name)"
  then have "JSXAttribute cfg attr ancestors s =
      findVariableViolation (attribute_node attr) (Some name) ancestors s"
    by (auto simp: JSXAttribute_def)
  also have "\<dots> = Inr (context_report (attribute_node attr)
                         (violationMessageStore
                            (if Some name \<in> array_set bs then array else object)) s)"
    by (rule findVariableViolation_hit [OF h1 h2 h3 h4 h5])
  finally show "JSXAttribute cfg attr ancestors s =
                  Inr (context_report (attribute_node attr)
                         (violationMessageStore
                            (if Some name \<in> array_set bs then array else object)) s)" .
next
  assume hit: "ancestors = outer @ block # inner
        \<and> node_type block = ''BlockStatement''
        \<and> (\<forall>p \<in> set inner. node_type p = ''BlockStatement'' \<longrightarrow>
              (\<exists>ps. blockVariableNameSets s (range0 p) = Some ps
                    \<and> Some name \<notin> array_set ps \<and> Some name \<notin> object_set ps))
        \<and> blockVariableNameSets s (range0 block) = Some bs
        \<and> (Some name \<in> array_set bs \<or> Some name \<in> object_set bs)"
  assume c: "\<not> (ignoreDOMComponents cfg \<and> tag = Literal)
              \<and> isCreateElement call
              \<and> arguments call = tag # ObjectExpression properties # args
              \<and> CallExpression cfg call ancestors s = Inr s'
              \<and> (pn, Some (Identifier name)) \<in> set properties"
  from hit have h1: "ancestors = outer @ block # inner"
    and h2: "node_type block = ''BlockStatement''"
    and h3: "\<forall>p \<in> set inner. node_type p = ''BlockStatement'' \<longrightarrow>
              (\<exists>ps. blockVariableNameSets s (range0 p) = Some ps
                    \<and> Some name \<notin> array_set ps \<and> Some name \<notin> object_set ps)"
    and h4: "blockVariableNameSets s (range0 block) = Some bs"
    and h5: "Some name \<in> array_set bs \<or> Some name \<in> object_set bs"
    by blast+
  from c have mem: "(pn, Some (Identifier name)) \<in> set properties" by blast
  from c have "forEach_prop cfg (call_node call) ancestors properties s = Inr s'"
    by (auto simp: CallExpression_def)
  from forEach_prop_reports_Identifier [OF this mem h1 h2 h3 h4 h5]
  show "(call_node call,
                   violationMessageStore (if Some name \<in> array_set bs then array else object))
                  \<in> set (reports s')" .
next
  assume c: "\<not> (ignoreDOMComponents cfg \<and> tag = Literal)
        \<and> isCreateElement call
        \<and> arguments call = tag # ObjectExpression properties # args
        \<and> CallExpression cfg call ancestors s = Inr s'
        \<and> (pn, Some v) \<in> set properties
        \<and> (\<forall>x. v \<noteq> Identifier x)
        \<and> getNodeViolationType cfg v = Some t"
  then have run: "forEach_prop cfg (call_node call) ancestors properties s = Inr s'"
    by (auto simp: CallExpression_def)
  from c have mem: "(pn, Some v) \<in> set properties" and notid: "\<forall>x. v \<noteq> Identifier x"
    and kind: "getNodeViolationType cfg v = Some t" by blast+
  from forEach_prop_reports_direct [OF run mem notid kind]
  show "(pn, violationMessageStore t) \<in> set (reports s')" .
qed

text \<open>
  With DOM components ignored, \<^verbatim>\<open><div style={{}} />\<close> and
  \<^verbatim>\<open>React.createElement('div', { style: {} })\<close> give no diagnostic. On a component,
  still with DOM components ignored and inside the blocks at 0, 10 and 20 of \<open>ex_state\<close>,
  \<^verbatim>\<open><Foo bar={a} />\<close> is reported as an array at the attribute, and
  \<^verbatim>\<open>React.createElement(Foo, { x: a, y: {} })\<close> is reported as an array at the call
  and as an object at the second property. By default the attribute of the
  \<^verbatim>\<open>div\<close> is reported.
\<close>

theorem ignoreDOMComponents_skips_witness:
  "JSXAttribute (cfg_default\<lparr>ignoreDOMComponents := True\<rparr>)
      \<lparr>attribute_node = 1, parent_isDOMComponent = True,
         attribute_value = JSXExpressionContainer (ObjectExpression [])\<rparr> [] initial_state
     = Inr initial_state
   \<and> CallExpression (cfg_default\<lparr>ignoreDOMComponents := True\<rparr>)
      \<lparr>call_node = 2, isCreateElement = True,
         arguments = [Literal, ObjectExpression [(3, Some (ObjectExpression []))]]\<rparr>
      [] initial_state
     = Inr initial_state
   \<and> JSXAttribute (cfg_default\<lparr>ignoreDOMComponents := True\<rparr>)
      \<lparr>attribute_node = 7, parent_isDOMComponent = False,
         attribute_value = JSXExpressionContainer (Identifier ''a'')\<rparr>
      [other_node ''Program'' 0, blk 0, blk 10, blk 20] ex_state
     = Inr (ex_state\<lparr>reports := [(7, ''Props should not use array allocations'')]\<rparr>)
   \<and> CallExpression (cfg_default\<lparr>ignoreDOMComponents := True\<rparr>)
      \<lparr>call_node = 50, isCreateElement = True,
         arguments = [Identifier ''Foo'',
           ObjectExpression [(51, Some (Identifier ''a'')), (52, Some (ObjectExpression []))]]\<rparr>
      [other_node ''Program'' 0, blk 0, blk 10, blk 20] ex_state
     = Inr (ex_state\<lparr>reports := [(50, ''Props should not use array allocations''),
                                 (52, ''Props should not use object allocations'')]\<rparr>)
   \<and> JSXAttribute cfg_default
      \<lparr>attribute_node = 1, parent_isDOMComponent = True,
         attribute_value = JSXExpressionContainer (ObjectExpression [])\<rparr> [] initial_state
     = Inr (initial_state\<lparr>reports := [(1, ''Props should not use object allocations'')]\<rparr>)"
proof -
  let ?ignore = "cfg_default\<lparr>ignoreDOMComponents := True\<rparr>"
  let ?div = "\<lparr>attribute_node = 1, parent_isDOMComponent = True,
         attribute_value = JSXExpressionContainer (ObjectExpression [])\<rparr>"
  let ?div_call = "\<lparr>call_node = 2, isCreateElement = True,
         arguments = [Literal, ObjectExpression [(3, Some (ObjectExpression []))]]\<rparr>"
  let ?foo = "\<lparr>attribute_node = 7, parent_isDOMComponent = False,
         attribute_value = JSXExpressionContainer (Identifier ''a'')\<rparr>"
  let ?foo_call = "\<lparr>call_node = 50, isCreateElement = True,
         arguments = [Identifier ''Foo'',
           ObjectExpression [(51, Some (Identifier ''a'')), (52, Some (ObjectExpression []))]]\<rparr>"
  let ?chain = "[other_node ''Program'' 0, blk 0, blk 10, blk 20]"
  from ignoreDOMComponents_skips
    [where cfg = ?ignore and attr = ?div and call = ?div_call and ancestors = "[]"
       and s = initial_state
       and args = "[ObjectExpression [(3, Some (ObjectExpression []))]]"]
  have skip: "JSXAttribute ?ignore ?div [] initial_state = Inr initial_state"
    "CallExpression ?ignore ?div_call [] initial_state = Inr initial_state"
    by (simp_all add: cfg_default_def)
  from ignoreDOMComponents_skips
    [where cfg = ?ignore and attr = ?foo and ancestors = ?chain and s = ex_state
       and outer = "[other_node ''Program'' 0, blk 0]" and block = "blk 10"
       and inner = "[blk 20]" and name = "''a''"
       and bs = "\<lparr>array_set = {Some ''a''}, object_set = {}\<rparr>"]
  have attr: "JSXAttribute ?ignore ?foo ?chain ex_state
      = Inr (ex_state\<lparr>reports := [(7, ''Props should not use array allocations'')]\<rparr>)"
    by (simp add: cfg_default_def ex_state_def blk_def other_node_def context_report_def)
  from ignoreDOMComponents_skips
    [where cfg = ?ignore and call = ?foo_call and ancestors = ?chain and s = ex_state
       and tag = "Identifier ''Foo''" and args = "[]"
       and properties = "[(51, Some (Identifier ''a'')), (52, Some (ObjectExpression []))]"]
  have call: "CallExpression ?ignore ?foo_call ?chain ex_state
      = Inr (ex_state\<lparr>reports := [(50, ''Props should not use array allocations''),
                                 (52, ''Props should not use object allocations'')]\<rparr>)"
    by (simp add: cfg_default_def ex_state_def run_simps)
  from ignoreDOMComponents_skips
    [where cfg = cfg_default and attr = ?div and ancestors = "[]" and s = initial_state
       and valueNode = "ObjectExpression []"]
  have default: "JSXAttribute cfg_default ?div [] initial_state
      = Inr (initial_state\<lparr>reports := [(1, ''Props should not use object allocations'')]\<rparr>)"
    by (simp add: cfg_default_def initial_state_def context_report_def)
  from skip attr call default show ?thesis by simp
qed

subsection \<open>An attribute without an expression\<close>

text \<open>
  Claim C10, as the code has it. The handler of an attribute first returns, leaving the
  state as it was, when \<open>ignoreDOMComponents\<close> is true and the owner is a DOM component.
  Only when this early return does not apply does it read
  \<^verbatim>\<open>node.value.expression\<close> and then its \<^verbatim>\<open>type\<close>: for an attribute with no value or
  with a string literal as value it then throws a type error, whatever \<open>allowArrays\<close>,
  \<open>allowObjects\<close>, the enclosing blocks and the table are. So the handler throws on an
  attribute whose value is not an expression container exactly when
  \<open>ignoreDOMComponents\<close> is false or the owner is not a DOM component.
\<close>

theorem JSXAttribute_no_expression:
  "(attribute_value node = NullValue \<or> attribute_value node = LiteralValue
    \<longrightarrow> JSXAttribute cfg node ancestors s =
          (if ignoreDOMComponents cfg \<and> parent_isDOMComponent node then Inr s
           else Inl TypeError))
   \<and> ((\<forall>valueNode. attribute_value node \<noteq> JSXExpressionContainer valueNode)
      \<longrightarrow> ((\<exists>e. JSXAttribute cfg node ancestors s = Inl e)
             \<longleftrightarrow> \<not> (ignoreDOMComponents cfg \<and> parent_isDOMComponent node)))"
  by (cases "attribute_value node") (auto simp: JSXAttribute_def)

text \<open>
  \<^verbatim>\<open><Foo disabled />\<close> and \<^verbatim>\<open><Foo bar="baz" />\<close> throw under the default
  configuration.
\<close>

theorem JSXAttribute_no_expression_witness:
  "JSXAttribute cfg_default
      \<lparr>attribute_node = 1, parent_isDOMComponent = False, attribute_value = NullValue\<rparr>
      [] initial_state = Inl TypeError
   \<and> JSXAttribute cfg_default
      \<lparr>attribute_node = 1, parent_isDOMComponent = False, attribute_value = LiteralValue\<rparr>
      [] initial_state = Inl TypeError"
proof -
  from JSXAttribute_no_expression
    [of "\<lparr>attribute_node = 1, parent_isDOMComponent = False, attribute_value = NullValue\<rparr>"
        cfg_default "[]" initial_state]
  have 1: "JSXAttribute cfg_default
      \<lparr>attribute_node = 1, parent_isDOMComponent = False, attribute_value = NullValue\<rparr>
      [] initial_state = Inl TypeError"
    by (simp add: cfg_default_def)
  from JSXAttribute_no_expression
    [of "\<lparr>attribute_node = 1, parent_isDOMComponent = False, attribute_value = LiteralValue\<rparr>"
        cfg_default "[]" initial_state]
  have 2: "JSXAttribute cfg_default
      \<lparr>attribute_node = 1, parent_isDOMComponent = False, attribute_value = LiteralValue\<rparr>
      [] initial_state = Inl TypeError"
    by (simp add: cfg_default_def)
  from 1 2 show ?thesis by simp
qed

text \<open>
  The claim as stated, that such an attribute makes the handler throw before any check
  of the owner or of the configuration, is false: with \<open>ignoreDOMComponents\<close> true,
  \<^verbatim>\<open><div hidden />\<close> and \<^verbatim>\<open><div id="x" />\<close> return normally.
\<close>

theorem JSXAttribute_no_expression_counterexample:
  "JSXAttribute (cfg_default\<lparr>ignoreDOMComponents := True\<rparr>)
      \<lparr>attribute_node = 1, parent_isDOMComponent = True, attribute_value = NullValue\<rparr>
      [] initial_state = Inr initial_state
   \<and> JSXAttribute (cfg_default\<lparr>ignoreDOMComponents := True\<rparr>)
      \<lparr>attribute_node = 1, parent_isDOMComponent = True, attribute_value = LiteralValue\<rparr>
      [] initial_state = Inr initial_state"
  by (simp add: JSXAttribute_def cfg_default_def)

subsection \<open>Allowing a kind\<close>

text \<open>The two kinds and their messages.\<close>

lemma message_inj: "violationMessageStore t = violationMessageStore t' \<longleftrightarrow> t = t'"
  by (cases t; cases t') simp_all

lemma other_kind_neq: "other_kind k \<noteq> k" "k \<noteq> other_kind k"
  by (cases k; simp)+

lemma kind_cases: "t = k \<or> t = other_kind k"
  by (cases t; cases k) simp_all

text \<open>The classifier under two configurations that differ in one flag.\<close>

lemma classify_allowed: "allowed cfg k \<Longrightarrow> getNodeViolationType cfg e \<noteq> Some k"
  by (induction e) (auto simp: js_or_Some)

lemma classify_flipped_None:
  "flag_flipped k c1 c2 \<Longrightarrow> getNodeViolationType c1 e = None
     \<Longrightarrow> getNodeViolationType c2 e = None"
  by (induction e) (cases k; auto simp: js_or_None flag_flipped_def)+

lemma classify_flipped_other:
  "flag_flipped k c1 c2 \<Longrightarrow> getNodeViolationType c1 e = Some (other_kind k)
     \<Longrightarrow> getNodeViolationType c2 e = Some (other_kind k)"
proof (induction e)
  case (ConditionalExpression e1 e2 e3)
  then show ?case
    by (auto simp: js_or_Some dest: classify_flipped_None)
qed (cases k; auto simp: flag_flipped_def)+

lemma classify_flipped_cases:
  assumes "flag_flipped k c1 c2"
  shows "(getNodeViolationType c1 e = None \<and> getNodeViolationType c2 e = None)
       \<or> (getNodeViolationType c1 e = Some (other_kind k)
            \<and> getNodeViolationType c2 e = Some (other_kind k))
       \<or> (getNodeViolationType c1 e = Some k
            \<and> (getNodeViolationType c2 e = None
                 \<or> getNodeViolationType c2 e = Some (other_kind k)))"
proof (cases "getNodeViolationType c1 e")
  case None
  with assms show ?thesis by (simp add: classify_flipped_None)
next
  case (Some t)
  from assms have a: "allowed c2 k" by (simp add: flag_flipped_def)
  show ?thesis
  proof (cases "t = k")
    case True
    from classify_allowed [OF a, of e] kind_cases [of _ k]
    have "getNodeViolationType c2 e = None \<or> getNodeViolationType c2 e = Some (other_kind k)"
      by (cases "getNodeViolationType c2 e") auto
    with Some True show ?thesis by simp
  next
    case False
    with kind_cases [of t k] have "t = other_kind k" by simp
    with Some assms show ?thesis by (simp add: classify_flipped_other)
  qed
qed

text \<open>One run, under a configuration that allows the kind.\<close>

lemma suppressed_report:
  "suppressed k s \<Longrightarrow> t \<noteq> k \<Longrightarrow> suppressed k (context_report node (violationMessageStore t) s)"
  by (auto simp: suppressed_def context_report_def message_inj)

lemma find_violationType_pair:
  "find_violationType node n bs [array, object] s =
     (if n \<in> array_set bs then (Some array, context_report node (violationMessageStore array) s)
      else if n \<in> object_set bs
        then (Some object, context_report node (violationMessageStore object) s)
      else (None, s))"
  by simp

lemma find_block_outcome:
  "find_block node n blocks s = Inr s' \<Longrightarrow>
     s' = s \<or> (\<exists>t b bs. s' = context_report node (violationMessageStore t) s
                  \<and> blockVariableNameSets s b = Some bs \<and> n \<in> get_set t bs)"
proof (induction blocks)
  case Nil
  then show ?case by simp
next
  case (Cons block blocks)
  from Cons.prems obtain bs where bs: "blockVariableNameSets s (range0 block) = Some bs"
    by (auto simp: reportVariableViolation_def split: option.splits)
  consider "n \<in> array_set bs" | "n \<notin> array_set bs" "n \<in> object_set bs"
    | "n \<notin> array_set bs" "n \<notin> object_set bs" by blast
  then show ?case
  proof cases
    case 1
    with Cons.prems bs have "s' = context_report node (violationMessageStore array) s"
      by (simp add: reportVariableViolation_def)
    moreover from 1 have "n \<in> get_set array bs" by simp
    ultimately show ?thesis using bs by blast
  next
    case 2
    with Cons.prems bs have "s' = context_report node (violationMessageStore object) s"
      by (simp add: reportVariableViolation_def)
    moreover from 2 have "n \<in> get_set object bs" by simp
    ultimately show ?thesis using bs by blast
  next
    case 3
    with Cons.prems bs have "find_block node n blocks s = Inr s'"
      by (simp add: reportVariableViolation_def)
    then show ?thesis by (rule Cons.IH)
  qed
qed

lemma find_block_suppressed:
  assumes "find_block node n blocks s = Inr s'" and "suppressed k s"
  shows "s' = s \<or> s' = context_report node (violationMessageStore (other_kind k)) s"
proof -
  from find_block_outcome [OF assms(1)]
  consider "s' = s"
    | t b bs where "s' = context_report node (violationMessageStore t) s"
        "blockVariableNameSets s b = Some bs" "n \<in> get_set t bs" by blast
  then show ?thesis
  proof cases
    case 1
    then show ?thesis by simp
  next
    case 2
    with assms(2) have "t \<noteq> k" by (auto simp: suppressed_def)
    with kind_cases [of t k] have "t = other_kind k" by simp
    with 2 show ?thesis by simp
  qed
qed

lemma findVariableViolation_suppressed:
  assumes "findVariableViolation node n ancestors s = Inr s'" and "suppressed k s"
  shows "suppressed k s'"
proof -
  from assms have "s' = s \<or> s' = context_report node (violationMessageStore (other_kind k)) s"
    unfolding findVariableViolation_def by (rule find_block_suppressed)
  with assms(2) show ?thesis by (auto simp: suppressed_report other_kind_neq)
qed

lemma addVariableNameToSet_suppressed:
  assumes "addVariableNameToSet t n b s = Inr s'" and "suppressed k s" and "t \<noteq> k"
  shows "suppressed k s'"
  using assms
  by (auto simp: addVariableNameToSet_def suppressed_def get_set_add_name split: option.splits if_splits)

lemma BlockStatement_suppressed:
  assumes "BlockStatement b s = Inr s'" and "suppressed k s"
  shows "suppressed k s'"
  using assms
  by (cases k) (auto simp: BlockStatement_def setBlockVariableNameSet_def suppressed_def split: if_splits)

lemma VariableDeclarator_suppressed:
  assumes "VariableDeclarator cfg node ancestors s = Inr s'" and "suppressed k s"
    and "allowed cfg k"
  shows "suppressed k s'"
proof (cases "init node")
  case None
  with assms show ?thesis by (simp add: VariableDeclarator_def)
next
  case (Some e)
  show ?thesis
  proof (cases "getNodeViolationType cfg e")
    case None
    with Some assms show ?thesis by (simp add: VariableDeclarator_def split: list.splits)
  next
    case t: (Some t)
    with classify_allowed [OF assms(3), of e] have "t \<noteq> k" by auto
    with Some t assms show ?thesis
      by (auto simp: VariableDeclarator_def split: list.splits if_splits
          dest: addVariableNameToSet_suppressed)
  qed
qed

lemma direct_report_suppressed:
  assumes "suppressed k s" and "allowed cfg k"
  shows "suppressed k (case getNodeViolationType cfg e of
            Some t \<Rightarrow> context_report node (violationMessageStore t) s | None \<Rightarrow> s)"
  using assms classify_allowed [OF assms(2), of e]
  by (auto simp: suppressed_report split: option.splits)

text \<open>The handlers at a usage site, by the shape of the value.\<close>

lemma JSXAttribute_skip:
  "ignoreDOMComponents cfg \<and> parent_isDOMComponent node
     \<Longrightarrow> JSXAttribute cfg node ancestors s = Inr s"
  by (simp add: JSXAttribute_def)

lemma JSXAttribute_throws:
  "\<not> (ignoreDOMComponents cfg \<and> parent_isDOMComponent node)
     \<Longrightarrow> \<forall>v. attribute_value node \<noteq> JSXExpressionContainer v
     \<Longrightarrow> JSXAttribute cfg node ancestors s = Inl TypeError"
  by (cases "attribute_value node") (auto simp: JSXAttribute_def)

lemma JSXAttribute_Identifier:
  "\<not> (ignoreDOMComponents cfg \<and> parent_isDOMComponent node)
     \<Longrightarrow> attribute_value node = JSXExpressionContainer (Identifier x)
     \<Longrightarrow> JSXAttribute cfg node ancestors s =
           findVariableViolation (attribute_node node) (Some x) ancestors s"
  by (auto simp: JSXAttribute_def)

lemma JSXAttribute_direct:
  "\<not> (ignoreDOMComponents cfg \<and> parent_isDOMComponent node)
     \<Longrightarrow> attribute_value node = JSXExpressionContainer v
     \<Longrightarrow> \<forall>x. v \<noteq> Identifier x
     \<Longrightarrow> JSXAttribute cfg node ancestors s =
           Inr (case getNodeViolationType cfg v of
                  Some t \<Rightarrow> context_report (attribute_node node) (violationMessageStore t) s
                | None \<Rightarrow> s)"
  by (cases v; cases "getNodeViolationType cfg v") (auto simp: JSXAttribute_def)

lemma CallExpression_prop_no_value:
  "snd p = None \<Longrightarrow> CallExpression_prop cfg node ancestors p s = Inr s"
  by (simp add: CallExpression_prop_def)

lemma CallExpression_prop_Identifier:
  "snd p = Some (Identifier x)
     \<Longrightarrow> CallExpression_prop cfg node ancestors p s =
           findVariableViolation node (Some x) ancestors s"
  by (simp add: CallExpression_prop_def)

lemma CallExpression_prop_direct:
  "snd p = Some v \<Longrightarrow> \<forall>x. v \<noteq> Identifier x
     \<Longrightarrow> CallExpression_prop cfg node ancestors p s =
           Inr (case getNodeViolationType cfg v of
                  Some t \<Rightarrow> context_report (fst p) (violationMessageStore t) s
                | None \<Rightarrow> s)"
  by (cases v; cases "getNodeViolationType cfg v") (auto simp: CallExpression_prop_def)

lemma CallExpression_cases:
  "CallExpression cfg node ancestors s = Inr s
   \<or> (\<exists>tag properties args. arguments node = tag # ObjectExpression properties # args
        \<and> isCreateElement node \<and> \<not> (ignoreDOMComponents cfg \<and> tag = Literal)
        \<and> CallExpression cfg node ancestors s =
            forEach_prop cfg (call_node node) ancestors properties s)"
  by (cases "arguments node")
     (auto simp: CallExpression_def split: list.splits expr.splits)

lemma JSXAttribute_suppressed:
  assumes "JSXAttribute cfg node ancestors s = Inr s'" and "suppressed k s" and "allowed cfg k"
  shows "suppressed k s'"
proof (cases "ignoreDOMComponents cfg \<and> parent_isDOMComponent node")
  case True
  with assms show ?thesis by (simp add: JSXAttribute_skip)
next
  case False
  show ?thesis
  proof (cases "\<exists>v. attribute_value node = JSXExpressionContainer v")
    case no: False
    with False assms(1) show ?thesis by (simp add: JSXAttribute_throws)
  next
    case True
    then obtain v where v: "attribute_value node = JSXExpressionContainer v" by blast
    show ?thesis
    proof (cases "\<exists>x. v = Identifier x")
      case True
      then obtain x where "v = Identifier x" by blast
      with False v assms(1)
      have "findVariableViolation (attribute_node node) (Some x) ancestors s = Inr s'"
        by (simp add: JSXAttribute_Identifier)
      then show ?thesis using assms(2) by (rule findVariableViolation_suppressed)
    next
      case notid: False
      with False v assms(1)
      have "s' = (case getNodeViolationType cfg v of
                  Some t \<Rightarrow> context_report (attribute_node node) (violationMessageStore t) s
                | None \<Rightarrow> s)"
        by (simp add: JSXAttribute_direct)
      with direct_report_suppressed [OF assms(2,3)] show ?thesis by simp
    qed
  qed
qed

lemma CallExpression_prop_suppressed:
  assumes "CallExpression_prop cfg node ancestors p s = Inr s'" and "suppressed k s"
    and "allowed cfg k"
  shows "suppressed k s'"
proof (cases "snd p")
  case None
  with assms show ?thesis by (simp add: CallExpression_prop_no_value)
next
  case (Some v)
  show ?thesis
  proof (cases "\<exists>x. v = Identifier x")
    case True
    then obtain x where "v = Identifier x" by blast
    with Some assms(1) have "findVariableViolation node (Some x) ancestors s = Inr s'"
      by (simp add: CallExpression_prop_Identifier)
    then show ?thesis using assms(2) by (rule findVariableViolation_suppressed)
  next
    case False
    with Some assms(1)
    have "s' = (case getNodeViolationType cfg v of
                  Some t \<Rightarrow> context_report (fst p) (violationMessageStore t) s
                | None \<Rightarrow> s)"
      by (simp add: CallExpression_prop_direct)
    with direct_report_suppressed [OF assms(2,3)] show ?thesis by simp
  qed
qed

lemma forEach_prop_suppressed:
  "forEach_prop cfg node ancestors ps s = Inr s' \<Longrightarrow> suppressed k s \<Longrightarrow> allowed cfg k
     \<Longrightarrow> suppressed k s'"
proof (induction ps arbitrary: s)
  case Nil
  then show ?case by simp
next
  case (Cons p ps)
  from Cons.prems(1) obtain s1 where 1: "CallExpression_prop cfg node ancestors p s = Inr s1"
    and 2: "forEach_prop cfg node ancestors ps s1 = Inr s'"
    by (auto split: sum.splits)
  from 1 Cons.prems(2,3) have "suppressed k s1" by (rule CallExpression_prop_suppressed)
  with 2 Cons.prems(3) show ?case by (blast intro: Cons.IH)
qed

lemma CallExpression_suppressed:
  assumes "CallExpression cfg node ancestors s = Inr s'" and "suppressed k s" and "allowed cfg k"
  shows "suppressed k s'"
proof -
  from CallExpression_cases [of cfg node ancestors s]
  consider "CallExpression cfg node ancestors s = Inr s"
    | properties where "CallExpression cfg node ancestors s =
        forEach_prop cfg (call_node node) ancestors properties s" by blast
  then show ?thesis
  proof cases
    case 1
    with assms show ?thesis by simp
  next
    case 2
    with assms(1) have "forEach_prop cfg (call_node node) ancestors properties s = Inr s'"
      by simp
    then show ?thesis using assms(2,3) by (rule forEach_prop_suppressed)
  qed
qed

lemma dispatch_suppressed:
  assumes "dispatch cfg e s = Inr s'" and "suppressed k s" and "allowed cfg k"
  shows "suppressed k s'"
  using assms
  by (cases e)
     (auto dest: BlockStatement_suppressed VariableDeclarator_suppressed
        JSXAttribute_suppressed CallExpression_suppressed)

lemma run_suppressed:
  "run cfg es s = Inr s' \<Longrightarrow> suppressed k s \<Longrightarrow> allowed cfg k \<Longrightarrow> suppressed k s'"
proof (induction es arbitrary: s)
  case Nil
  then show ?case by simp
next
  case (Cons e es)
  from Cons.prems(1) obtain s1 where 1: "dispatch cfg e s = Inr s1"
    and 2: "run cfg es s1 = Inr s'"
    by (auto split: sum.splits)
  from 1 Cons.prems(2,3) have "suppressed k s1" by (rule dispatch_suppressed)
  with 2 Cons.prems(3) show ?case by (blast intro: Cons.IH)
qed

lemma suppressed_initial: "suppressed k initial_state"
  by (simp add: suppressed_def initial_state_def)

text \<open>Two runs over the same events.\<close>

lemma reports_related_other:
  assumes "reports_related k rs1 rs2"
  shows "reports_related k (rs1 @ [(node, violationMessageStore (other_kind k))])
           (rs2 @ [(node, violationMessageStore (other_kind k))])"
proof -
  from assms obtain kept where kept: "subseq kept rs1"
    "filter (\<lambda>r. snd r = violationMessageStore (other_kind k)) kept
       = filter (\<lambda>r. snd r = violationMessageStore (other_kind k)) rs1"
    "rs2 = map (\<lambda>r. (fst r, violationMessageStore (other_kind k))) kept"
    unfolding reports_related_def by blast
  let ?kept = "kept @ [(node, violationMessageStore (other_kind k))]"
  from kept(1) have "subseq ?kept (rs1 @ [(node, violationMessageStore (other_kind k))])"
    by (simp add: list_emb_append_mono)
  moreover from kept(2)
  have "filter (\<lambda>r. snd r = violationMessageStore (other_kind k)) ?kept
       = filter (\<lambda>r. snd r = violationMessageStore (other_kind k))
           (rs1 @ [(node, violationMessageStore (other_kind k))])"
    by simp
  moreover from kept(3)
  have "rs2 @ [(node, violationMessageStore (other_kind k))]
       = map (\<lambda>r. (fst r, violationMessageStore (other_kind k))) ?kept"
    by simp
  ultimately show ?thesis unfolding reports_related_def by blast
qed

lemma reports_related_left:
  assumes "reports_related k rs1 rs2"
  shows "reports_related k (rs1 @ [(node, violationMessageStore k)]) rs2"
proof -
  from assms obtain kept where kept: "subseq kept rs1"
    "filter (\<lambda>r. snd r = violationMessageStore (other_kind k)) kept
       = filter (\<lambda>r. snd r = violationMessageStore (other_kind k)) rs1"
    "rs2 = map (\<lambda>r. (fst r, violationMessageStore (other_kind k))) kept"
    unfolding reports_related_def by blast
  from kept(1) list_emb_append_mono [of "(=)" kept rs1 "[]" "[(node, violationMessageStore k)]"]
  have "subseq kept (rs1 @ [(node, violationMessageStore k)])" by simp
  moreover from kept(2)
  have "filter (\<lambda>r. snd r = violationMessageStore (other_kind k)) kept
       = filter (\<lambda>r. snd r = violationMessageStore (other_kind k))
           (rs1 @ [(node, violationMessageStore k)])"
    by (simp add: message_inj other_kind_neq)
  ultimately show ?thesis using kept(3) unfolding reports_related_def by blast
qed

lemma reports_related_cross:
  assumes "reports_related k rs1 rs2"
  shows "reports_related k (rs1 @ [(node, violationMessageStore k)])
           (rs2 @ [(node, violationMessageStore (other_kind k))])"
proof -
  from assms obtain kept where kept: "subseq kept rs1"
    "filter (\<lambda>r. snd r = violationMessageStore (other_kind k)) kept
       = filter (\<lambda>r. snd r = violationMessageStore (other_kind k)) rs1"
    "rs2 = map (\<lambda>r. (fst r, violationMessageStore (other_kind k))) kept"
    unfolding reports_related_def by blast
  let ?kept = "kept @ [(node, violationMessageStore k)]"
  from kept(1) have "subseq ?kept (rs1 @ [(node, violationMessageStore k)])"
    by (simp add: list_emb_append_mono)
  moreover from kept(2)
  have "filter (\<lambda>r. snd r = violationMessageStore (other_kind k)) ?kept
       = filter (\<lambda>r. snd r = violationMessageStore (other_kind k))
           (rs1 @ [(node, violationMessageStore k)])"
    by (simp add: message_inj other_kind_neq)
  moreover from kept(3)
  have "rs2 @ [(node, violationMessageStore (other_kind k))]
       = map (\<lambda>r. (fst r, violationMessageStore (other_kind k))) ?kept"
    by simp
  ultimately show ?thesis unfolding reports_related_def by blast
qed

lemma filter_subseq_relabel:
  "subseq (filter (\<lambda>r. snd r = m) rs) (map (\<lambda>r. (fst r, m)) rs)"
proof (induction rs)
  case Nil
  then show ?case by simp
next
  case (Cons r rs)
  show ?case
  proof (cases "snd r = m")
    case True
    then have "r = (fst r, m)" by (simp add: prod_eq_iff)
    with True Cons show ?thesis by (simp add: subseq_Cons2_iff)
  next
    case False
    with Cons show ?thesis by (simp add: list_emb_Cons)
  qed
qed

lemma reports_related_subseq:
  assumes "reports_related k rs1 rs2"
  shows "subseq (filter (\<lambda>r. snd r = violationMessageStore (other_kind k)) rs1) rs2"
proof -
  from assms obtain kept where kept:
    "filter (\<lambda>r. snd r = violationMessageStore (other_kind k)) kept
       = filter (\<lambda>r. snd r = violationMessageStore (other_kind k)) rs1"
    "rs2 = map (\<lambda>r. (fst r, violationMessageStore (other_kind k))) kept"
    unfolding reports_related_def by blast
  from filter_subseq_relabel [of "violationMessageStore (other_kind k)" kept] kept
  show ?thesis by simp
qed

lemma related_report_other:
  "related k s1 s2 \<Longrightarrow>
     related k (context_report node (violationMessageStore (other_kind k)) s1)
               (context_report node (violationMessageStore (other_kind k)) s2)"
  by (simp add: related_def context_report_def reports_related_other)

lemma related_report_left:
  "related k s1 s2 \<Longrightarrow> related k (context_report node (violationMessageStore k) s1) s2"
  by (simp add: related_def context_report_def reports_related_left)

lemma related_report_cross:
  "related k s1 s2 \<Longrightarrow>
     related k (context_report node (violationMessageStore k) s1)
               (context_report node (violationMessageStore (other_kind k)) s2)"
  by (simp add: related_def context_report_def reports_related_cross)

lemma related_direct:
  assumes "related k s1 s2" and "flag_flipped k c1 c2"
  shows "related k
     (case getNodeViolationType c1 e of
        Some t \<Rightarrow> context_report node (violationMessageStore t) s1 | None \<Rightarrow> s1)
     (case getNodeViolationType c2 e of
        Some t \<Rightarrow> context_report node (violationMessageStore t) s2 | None \<Rightarrow> s2)"
  using classify_flipped_cases [OF assms(2), of e] assms(1)
  by (auto simp: related_report_other related_report_left related_report_cross)

lemma related_sets:
  assumes "related k s1 s2"
    and "blockVariableNameSets s1 b = Some bs1" and "blockVariableNameSets s2 b = Some bs2"
  shows "get_set (other_kind k) bs1 \<subseteq> get_set (other_kind k) bs2"
    and "get_set (other_kind k) bs2 \<subseteq> get_set k bs1 \<union> get_set (other_kind k) bs1"
  using assms unfolding related_def sets_related_def by blast+

lemma related_dom:
  assumes "related k s1 s2"
  shows "blockVariableNameSets s1 b = None \<longleftrightarrow> blockVariableNameSets s2 b = None"
  using assms unfolding related_def sets_related_def by blast

lemma get_set_kinds: "n \<in> array_set bs \<or> n \<in> object_set bs
    \<longleftrightarrow> n \<in> get_set k bs \<or> n \<in> get_set (other_kind k) bs"
  by (cases k) auto

lemma find_violationType_kinds:
  assumes "get_set k bs = {}"
  shows "find_violationType node n bs [array, object] s =
     (if n \<in> get_set (other_kind k) bs
      then (Some (other_kind k), context_report node (violationMessageStore (other_kind k)) s)
      else (None, s))"
  using assms by (cases k) auto

lemma find_violationType_miss_other:
  assumes "n \<notin> get_set (other_kind k) bs" and "n \<in> get_set k bs"
  shows "find_violationType node n bs [array, object] s =
            (Some k, context_report node (violationMessageStore k) s)"
  using assms by (cases k) auto

lemma find_violationType_hit:
  assumes "n \<in> get_set (other_kind k) bs"
  shows "\<exists>t. find_violationType node n bs [array, object] s =
            (Some t, context_report node (violationMessageStore t) s)"
  using assms by (cases k) auto

lemma find_violationType_miss:
  assumes "n \<notin> get_set (other_kind k) bs" and "n \<notin> get_set k bs"
  shows "find_violationType node n bs [array, object] s = (None, s)"
  using assms by (cases k) auto

lemma find_block_related:
  assumes "related k s1 s2" and "suppressed k s2"
    and "find_block node n blocks s1 = Inr s1'" and "find_block node n blocks s2 = Inr s2'"
  shows "related k s1' s2'"
  using assms(3,4)
proof (induction blocks)
  case Nil
  with assms(1) show ?case by simp
next
  case (Cons block blocks)
  from Cons.prems(1) obtain bs1 where bs1: "blockVariableNameSets s1 (range0 block) = Some bs1"
    by (auto simp: reportVariableViolation_def split: option.splits)
  from Cons.prems(2) obtain bs2 where bs2: "blockVariableNameSets s2 (range0 block) = Some bs2"
    by (auto simp: reportVariableViolation_def split: option.splits)
  from assms(2) bs2 have empty: "get_set k bs2 = {}" by (simp add: suppressed_def)
  note sub = related_sets [OF assms(1) bs1 bs2]
  note right = find_violationType_kinds [OF empty, of node n s2]
  show ?case
  proof (cases "n \<in> get_set (other_kind k) bs2")
    case True
    with right Cons.prems(2) bs2
    have s2': "s2' = context_report node (violationMessageStore (other_kind k)) s2"
      by (simp add: reportVariableViolation_def)
    from True sub(2) have "n \<in> get_set k bs1 \<or> n \<in> get_set (other_kind k) bs1" by blast
    then consider "n \<in> get_set (other_kind k) bs1"
      | "n \<notin> get_set (other_kind k) bs1" "n \<in> get_set k bs1" by blast
    then show ?thesis
    proof cases
      case 1
      from find_violationType_hit [OF 1, of node s1] obtain t where
        "find_violationType node n bs1 [array, object] s1 =
            (Some t, context_report node (violationMessageStore t) s1)" by blast
      with Cons.prems(1) bs1 have s1': "s1' = context_report node (violationMessageStore t) s1"
        by (simp add: reportVariableViolation_def)
      from kind_cases [of t k] s1' s2' assms(1) show ?thesis
        by (auto simp: related_report_other related_report_cross)
    next
      case 2
      from find_violationType_miss_other [OF 2, of node s1] Cons.prems(1) bs1
      have "s1' = context_report node (violationMessageStore k) s1"
        by (simp add: reportVariableViolation_def)
      with s2' assms(1) show ?thesis
        by (simp add: related_report_cross)
    qed
  next
    case False
    with right Cons.prems(2) bs2 have rest2: "find_block node n blocks s2 = Inr s2'"
      by (simp add: reportVariableViolation_def)
    from False sub(1) have no: "n \<notin> get_set (other_kind k) bs1" by blast
    show ?thesis
    proof (cases "n \<in> get_set k bs1")
      case True
      from find_violationType_miss_other [OF no True, of node s1] Cons.prems(1) bs1
      have s1': "s1' = context_report node (violationMessageStore k) s1"
        by (simp add: reportVariableViolation_def)
      from find_block_suppressed [OF rest2 assms(2)] assms(1) s1' show ?thesis
        by (auto simp: related_report_left related_report_cross)
    next
      case miss: False
      from find_violationType_miss [OF no miss, of node s1] Cons.prems(1) bs1
      have "find_block node n blocks s1 = Inr s1'"
        by (simp add: reportVariableViolation_def)
      then show ?thesis using rest2 by (rule Cons.IH)
    qed
  qed
qed

lemma findVariableViolation_related:
  assumes "related k s1 s2" and "suppressed k s2"
    and "findVariableViolation node n ancestors s1 = Inr s1'"
    and "findVariableViolation node n ancestors s2 = Inr s2'"
  shows "related k s1' s2'"
  using assms unfolding findVariableViolation_def by (rule find_block_related)

lemma sets_related_update:
  assumes "sets_related k m1 m2"
    and "get_set (other_kind k) bs1 \<subseteq> get_set (other_kind k) bs2"
    and "get_set (other_kind k) bs2 \<subseteq> get_set k bs1 \<union> get_set (other_kind k) bs1"
  shows "sets_related k (m1(b \<mapsto> bs1)) (m2(b \<mapsto> bs2))"
  unfolding sets_related_def
proof (intro conjI allI impI)
  fix b'
  show "((m1(b \<mapsto> bs1)) b' = None) = ((m2(b \<mapsto> bs2)) b' = None)"
    using assms(1) by (simp add: sets_related_def)
next
  fix b' x1 x2
  assume a: "(m1(b \<mapsto> bs1)) b' = Some x1 \<and> (m2(b \<mapsto> bs2)) b' = Some x2"
  show "get_set (other_kind k) x1 \<subseteq> get_set (other_kind k) x2"
  proof (cases "b' = b")
    case True
    with a assms(2) show ?thesis by simp
  next
    case False
    with a have "m1 b' = Some x1 \<and> m2 b' = Some x2" by simp
    with assms(1) show ?thesis unfolding sets_related_def by blast
  qed
  show "get_set (other_kind k) x2 \<subseteq> get_set k x1 \<union> get_set (other_kind k) x1"
  proof (cases "b' = b")
    case True
    with a assms(3) show ?thesis by simp
  next
    case False
    with a have "m1 b' = Some x1 \<and> m2 b' = Some x2" by simp
    with assms(1) show ?thesis unfolding sets_related_def by blast
  qed
qed

lemma addVariableNameToSet_Inr:
  assumes "addVariableNameToSet t n b s = Inr s'"
  obtains bs where "blockVariableNameSets s b = Some bs"
    and "s' = s\<lparr>blockVariableNameSets :=
                 (blockVariableNameSets s)(b \<mapsto> add_name t n bs)\<rparr>"
  using assms by (auto simp: addVariableNameToSet_def split: option.splits)

lemma related_add_other:
  assumes "related k s1 s2"
    and "addVariableNameToSet (other_kind k) n b s1 = Inr s1'"
    and "addVariableNameToSet (other_kind k) n b s2 = Inr s2'"
  shows "related k s1' s2'"
proof -
  from assms(2) obtain bs1 where 1: "blockVariableNameSets s1 b = Some bs1"
    "s1' = s1\<lparr>blockVariableNameSets :=
        (blockVariableNameSets s1)(b \<mapsto> add_name (other_kind k) n bs1)\<rparr>"
    by (rule addVariableNameToSet_Inr)
  from assms(3) obtain bs2 where 2: "blockVariableNameSets s2 b = Some bs2"
    "s2' = s2\<lparr>blockVariableNameSets :=
        (blockVariableNameSets s2)(b \<mapsto> add_name (other_kind k) n bs2)\<rparr>"
    by (rule addVariableNameToSet_Inr)
  note sub = related_sets [OF assms(1) 1(1) 2(1)]
  have "sets_related k
     ((blockVariableNameSets s1)(b \<mapsto> add_name (other_kind k) n bs1))
     ((blockVariableNameSets s2)(b \<mapsto> add_name (other_kind k) n bs2))"
  proof (rule sets_related_update)
    show "sets_related k (blockVariableNameSets s1) (blockVariableNameSets s2)"
      using assms(1) by (simp add: related_def)
    show "get_set (other_kind k) (add_name (other_kind k) n bs1)
        \<subseteq> get_set (other_kind k) (add_name (other_kind k) n bs2)"
      using sub(1) by (auto simp: get_set_add_name)
    show "get_set (other_kind k) (add_name (other_kind k) n bs2)
        \<subseteq> get_set k (add_name (other_kind k) n bs1)
          \<union> get_set (other_kind k) (add_name (other_kind k) n bs1)"
      using sub(2) by (auto simp: get_set_add_name)
  qed
  with assms(1) 1(2) 2(2) show ?thesis by (simp add: related_def)
qed

lemma related_add_left:
  assumes "related k s1 s2" and "addVariableNameToSet k n b s1 = Inr s1'"
  shows "related k s1' s2"
proof -
  from assms(2) obtain bs1 where 1: "blockVariableNameSets s1 b = Some bs1"
    "s1' = s1\<lparr>blockVariableNameSets :=
        (blockVariableNameSets s1)(b \<mapsto> add_name k n bs1)\<rparr>"
    by (rule addVariableNameToSet_Inr)
  from related_dom [OF assms(1), of b] 1(1) obtain bs2 where
    2: "blockVariableNameSets s2 b = Some bs2" by auto
  note sub = related_sets [OF assms(1) 1(1) 2]
  have "sets_related k
     ((blockVariableNameSets s1)(b \<mapsto> add_name k n bs1))
     ((blockVariableNameSets s2)(b \<mapsto> bs2))"
  proof (rule sets_related_update)
    show "sets_related k (blockVariableNameSets s1) (blockVariableNameSets s2)"
      using assms(1) by (simp add: related_def)
    show "get_set (other_kind k) (add_name k n bs1) \<subseteq> get_set (other_kind k) bs2"
      using sub(1) other_kind_neq [of k] by (auto simp: get_set_add_name)
    show "get_set (other_kind k) bs2
        \<subseteq> get_set k (add_name k n bs1) \<union> get_set (other_kind k) (add_name k n bs1)"
      using sub(2) by (auto simp: get_set_add_name)
  qed
  moreover from 2 have "(blockVariableNameSets s2)(b \<mapsto> bs2) = blockVariableNameSets s2"
    by (rule map_upd_triv)
  ultimately show ?thesis using assms(1) 1(2) by (simp add: related_def)
qed

lemma related_add_cross:
  assumes "related k s1 s2"
    and "addVariableNameToSet k n b s1 = Inr s1'"
    and "addVariableNameToSet (other_kind k) n b s2 = Inr s2'"
  shows "related k s1' s2'"
proof -
  from assms(2) obtain bs1 where 1: "blockVariableNameSets s1 b = Some bs1"
    "s1' = s1\<lparr>blockVariableNameSets :=
        (blockVariableNameSets s1)(b \<mapsto> add_name k n bs1)\<rparr>"
    by (rule addVariableNameToSet_Inr)
  from assms(3) obtain bs2 where 2: "blockVariableNameSets s2 b = Some bs2"
    "s2' = s2\<lparr>blockVariableNameSets :=
        (blockVariableNameSets s2)(b \<mapsto> add_name (other_kind k) n bs2)\<rparr>"
    by (rule addVariableNameToSet_Inr)
  note sub = related_sets [OF assms(1) 1(1) 2(1)]
  have "sets_related k
     ((blockVariableNameSets s1)(b \<mapsto> add_name k n bs1))
     ((blockVariableNameSets s2)(b \<mapsto> add_name (other_kind k) n bs2))"
  proof (rule sets_related_update)
    show "sets_related k (blockVariableNameSets s1) (blockVariableNameSets s2)"
      using assms(1) by (simp add: related_def)
    show "get_set (other_kind k) (add_name k n bs1)
        \<subseteq> get_set (other_kind k) (add_name (other_kind k) n bs2)"
      using sub(1) other_kind_neq [of k] by (auto simp: get_set_add_name)
    show "get_set (other_kind k) (add_name (other_kind k) n bs2)
        \<subseteq> get_set k (add_name k n bs1) \<union> get_set (other_kind k) (add_name k n bs1)"
      using sub(2) by (auto simp: get_set_add_name)
  qed
  with assms(1) 1(2) 2(2) show ?thesis by (simp add: related_def)
qed

lemma VariableDeclarator_recordable:
  "init node = Some e \<Longrightarrow> getBlockStatementAncestors ancestors = block # blocks
     \<Longrightarrow> parent_kind node = ''const''
     \<Longrightarrow> VariableDeclarator cfg node ancestors s =
           (case getNodeViolationType cfg e of
              None \<Rightarrow> Inr s
            | Some t \<Rightarrow> addVariableNameToSet t (id_name node) (range0 block) s)"
  by (simp add: VariableDeclarator_def split: option.splits)

lemma VariableDeclarator_ignored:
  "init node = None \<or> getBlockStatementAncestors ancestors = []
      \<or> parent_kind node \<noteq> ''const''
     \<Longrightarrow> VariableDeclarator cfg node ancestors s = Inr s"
  by (auto simp: VariableDeclarator_def split: option.splits list.splits)

lemma VariableDeclarator_related:
  assumes "related k s1 s2" and "flag_flipped k c1 c2"
    and "VariableDeclarator c1 node ancestors s1 = Inr s1'"
    and "VariableDeclarator c2 node ancestors s2 = Inr s2'"
  shows "related k s1' s2'"
proof (cases "init node = None \<or> getBlockStatementAncestors ancestors = []
      \<or> parent_kind node \<noteq> ''const''")
  case True
  with assms(3,4) have "s1' = s1" "s2' = s2" by (simp_all add: VariableDeclarator_ignored)
  with assms(1) show ?thesis by simp
next
  case False
  then obtain e block blocks where e: "init node = Some e"
    and chain: "getBlockStatementAncestors ancestors = block # blocks"
    and const: "parent_kind node = ''const''"
    by (cases "init node"; cases "getBlockStatementAncestors ancestors") auto
  note r1 = assms(3) [unfolded VariableDeclarator_recordable [OF e chain const]]
  note r2 = assms(4) [unfolded VariableDeclarator_recordable [OF e chain const]]
  from classify_flipped_cases [OF assms(2), of e]
  consider "getNodeViolationType c1 e = None" "getNodeViolationType c2 e = None"
    | "getNodeViolationType c1 e = Some (other_kind k)"
      "getNodeViolationType c2 e = Some (other_kind k)"
    | "getNodeViolationType c1 e = Some k" "getNodeViolationType c2 e = None"
    | "getNodeViolationType c1 e = Some k" "getNodeViolationType c2 e = Some (other_kind k)"
    by auto
  then show ?thesis
  proof cases
    case 1
    with r1 r2 assms(1) show ?thesis by simp
  next
    case 2
    with r1 r2 assms(1) show ?thesis by (auto intro: related_add_other)
  next
    case 3
    with r1 r2 assms(1) show ?thesis by (auto intro: related_add_left)
  next
    case 4
    with r1 r2 assms(1) show ?thesis by (auto intro: related_add_cross)
  qed
qed

lemma BlockStatement_related:
  assumes "related k s1 s2"
    and "BlockStatement b s1 = Inr s1'" and "BlockStatement b s2 = Inr s2'"
  shows "related k s1' s2'"
proof -
  have "sets_related k
     ((blockVariableNameSets s1)(b \<mapsto> \<lparr>array_set = {}, object_set = {}\<rparr>))
     ((blockVariableNameSets s2)(b \<mapsto> \<lparr>array_set = {}, object_set = {}\<rparr>))"
  proof (rule sets_related_update)
    show "sets_related k (blockVariableNameSets s1) (blockVariableNameSets s2)"
      using assms(1) by (simp add: related_def)
  qed (cases k; simp)+
  with assms show ?thesis
    by (auto simp: related_def BlockStatement_def setBlockVariableNameSet_def)
qed

lemma JSXAttribute_related:
  assumes "related k s1 s2" and "suppressed k s2" and "flag_flipped k c1 c2"
    and "JSXAttribute c1 node ancestors s1 = Inr s1'"
    and "JSXAttribute c2 node ancestors s2 = Inr s2'"
  shows "related k s1' s2'"
proof -
  from assms(3) have dom: "ignoreDOMComponents c1 = ignoreDOMComponents c2"
    by (simp add: flag_flipped_def)
  show ?thesis
  proof (cases "ignoreDOMComponents c1 \<and> parent_isDOMComponent node")
    case True
    with dom assms(4,5) have "s1' = s1" "s2' = s2" by (simp_all add: JSXAttribute_skip)
    with assms(1) show ?thesis by simp
  next
    case False
    with dom have False2: "\<not> (ignoreDOMComponents c2 \<and> parent_isDOMComponent node)" by simp
    show ?thesis
    proof (cases "\<exists>v. attribute_value node = JSXExpressionContainer v")
      case no: False
      with False assms(4) show ?thesis by (simp add: JSXAttribute_throws)
    next
      case True
      then obtain v where v: "attribute_value node = JSXExpressionContainer v" by blast
      show ?thesis
      proof (cases "\<exists>x. v = Identifier x")
        case True
        then obtain x where "v = Identifier x" by blast
        with False False2 v assms(4,5)
        have "findVariableViolation (attribute_node node) (Some x) ancestors s1 = Inr s1'"
          "findVariableViolation (attribute_node node) (Some x) ancestors s2 = Inr s2'"
          by (simp_all add: JSXAttribute_Identifier)
        with assms(1,2) show ?thesis by (rule findVariableViolation_related)
      next
        case notid: False
        with False False2 v assms(4,5)
        have "s1' = (case getNodeViolationType c1 v of
                  Some t \<Rightarrow> context_report (attribute_node node) (violationMessageStore t) s1
                | None \<Rightarrow> s1)"
          "s2' = (case getNodeViolationType c2 v of
                  Some t \<Rightarrow> context_report (attribute_node node) (violationMessageStore t) s2
                | None \<Rightarrow> s2)"
          by (simp_all add: JSXAttribute_direct)
        with related_direct [OF assms(1,3)] show ?thesis by simp
      qed
    qed
  qed
qed

lemma CallExpression_prop_related:
  assumes "related k s1 s2" and "suppressed k s2" and "flag_flipped k c1 c2"
    and "CallExpression_prop c1 node ancestors p s1 = Inr s1'"
    and "CallExpression_prop c2 node ancestors p s2 = Inr s2'"
  shows "related k s1' s2'"
proof (cases "snd p")
  case None
  with assms(4,5) have "s1' = s1" "s2' = s2" by (simp_all add: CallExpression_prop_no_value)
  with assms(1) show ?thesis by simp
next
  case (Some v)
  show ?thesis
  proof (cases "\<exists>x. v = Identifier x")
    case True
    then obtain x where "v = Identifier x" by blast
    with Some assms(4,5)
    have "findVariableViolation node (Some x) ancestors s1 = Inr s1'"
      "findVariableViolation node (Some x) ancestors s2 = Inr s2'"
      by (simp_all add: CallExpression_prop_Identifier)
    with assms(1,2) show ?thesis by (rule findVariableViolation_related)
  next
    case False
    with Some assms(4,5)
    have "s1' = (case getNodeViolationType c1 v of
                  Some t \<Rightarrow> context_report (fst p) (violationMessageStore t) s1
                | None \<Rightarrow> s1)"
      "s2' = (case getNodeViolationType c2 v of
                  Some t \<Rightarrow> context_report (fst p) (violationMessageStore t) s2
                | None \<Rightarrow> s2)"
      by (simp_all add: CallExpression_prop_direct)
    with related_direct [OF assms(1,3)] show ?thesis by simp
  qed
qed

lemma forEach_prop_related:
  "related k s1 s2 \<Longrightarrow> suppressed k s2 \<Longrightarrow> flag_flipped k c1 c2
     \<Longrightarrow> forEach_prop c1 node ancestors ps s1 = Inr s1'
     \<Longrightarrow> forEach_prop c2 node ancestors ps s2 = Inr s2'
     \<Longrightarrow> related k s1' s2'"
proof (induction ps arbitrary: s1 s2)
  case Nil
  then show ?case by simp
next
  case (Cons p ps)
  from Cons.prems(4) obtain t1 where
    a1: "CallExpression_prop c1 node ancestors p s1 = Inr t1"
    and b1: "forEach_prop c1 node ancestors ps t1 = Inr s1'"
    by (auto split: sum.splits)
  from Cons.prems(5) obtain t2 where
    a2: "CallExpression_prop c2 node ancestors p s2 = Inr t2"
    and b2: "forEach_prop c2 node ancestors ps t2 = Inr s2'"
    by (auto split: sum.splits)
  from Cons.prems(3) have allowed: "allowed c2 k" by (simp add: flag_flipped_def)
  from Cons.prems(1,2,3) a1 a2 have rel: "related k t1 t2"
    by (rule CallExpression_prop_related)
  from a2 Cons.prems(2) allowed have "suppressed k t2"
    by (rule CallExpression_prop_suppressed)
  with rel show ?case using Cons.prems(3) b1 b2 by (rule Cons.IH)
qed

lemma CallExpression_skip:
  assumes "\<not> (isCreateElement node
         \<and> (\<exists>tag properties args. arguments node = tag # ObjectExpression properties # args
               \<and> \<not> (ignoreDOMComponents cfg \<and> tag = Literal)))"
  shows "CallExpression cfg node ancestors s = Inr s"
  using assms
  by (cases "arguments node")
     (auto simp: CallExpression_def split: list.splits expr.splits)

lemma CallExpression_related:
  assumes "related k s1 s2" and "suppressed k s2" and "flag_flipped k c1 c2"
    and "CallExpression c1 node ancestors s1 = Inr s1'"
    and "CallExpression c2 node ancestors s2 = Inr s2'"
  shows "related k s1' s2'"
proof -
  from assms(3) have dom: "ignoreDOMComponents c1 = ignoreDOMComponents c2"
    by (simp add: flag_flipped_def)
  show ?thesis
  proof (cases "isCreateElement node
         \<and> (\<exists>tag properties args. arguments node = tag # ObjectExpression properties # args
               \<and> \<not> (ignoreDOMComponents c1 \<and> tag = Literal))")
    case True
    then obtain tag properties args where c: "isCreateElement node"
      and a: "arguments node = tag # ObjectExpression properties # args"
      and t1: "\<not> (ignoreDOMComponents c1 \<and> tag = Literal)" by blast
    from t1 dom have t2: "\<not> (ignoreDOMComponents c2 \<and> tag = Literal)" by simp
    from assms(4) have 1: "forEach_prop c1 (call_node node) ancestors properties s1 = Inr s1'"
      by (simp only: CallExpression_proceeds [OF t1 c a])
    from assms(5) have 2: "forEach_prop c2 (call_node node) ancestors properties s2 = Inr s2'"
      by (simp only: CallExpression_proceeds [OF t2 c a])
    from assms(1,2,3) 1 2 show ?thesis by (rule forEach_prop_related)
  next
    case False
    with assms(4) have "s1' = s1" by (simp add: CallExpression_skip)
    moreover from False dom assms(5) have "s2' = s2" by (simp add: CallExpression_skip)
    ultimately show ?thesis using assms(1) by simp
  qed
qed

lemma dispatch_related:
  assumes "related k s1 s2" and "suppressed k s2" and "flag_flipped k c1 c2"
    and "dispatch c1 e s1 = Inr s1'" and "dispatch c2 e s2 = Inr s2'"
  shows "related k s1' s2'"
proof (cases e)
  case (BlockStatement_event b)
  with assms show ?thesis by (auto intro: BlockStatement_related)
next
  case (VariableDeclarator_event node ancestors)
  with assms show ?thesis by (auto intro: VariableDeclarator_related)
next
  case (JSXAttribute_event node ancestors)
  with assms show ?thesis by (auto intro: JSXAttribute_related)
next
  case (CallExpression_event node ancestors)
  with assms show ?thesis by (auto intro: CallExpression_related)
qed

lemma run_related:
  "related k s1 s2 \<Longrightarrow> suppressed k s2 \<Longrightarrow> flag_flipped k c1 c2
     \<Longrightarrow> run c1 es s1 = Inr s1' \<Longrightarrow> run c2 es s2 = Inr s2'
     \<Longrightarrow> related k s1' s2'"
proof (induction es arbitrary: s1 s2)
  case Nil
  then show ?case by simp
next
  case (Cons e es)
  from Cons.prems(4) obtain t1 where a1: "dispatch c1 e s1 = Inr t1"
    and b1: "run c1 es t1 = Inr s1'" by (auto split: sum.splits)
  from Cons.prems(5) obtain t2 where a2: "dispatch c2 e s2 = Inr t2"
    and b2: "run c2 es t2 = Inr s2'" by (auto split: sum.splits)
  from Cons.prems(3) have allowed: "allowed c2 k" by (simp add: flag_flipped_def)
  from Cons.prems(1,2,3) a1 a2 have rel: "related k t1 t2" by (rule dispatch_related)
  from a2 Cons.prems(2) allowed have "suppressed k t2" by (rule dispatch_suppressed)
  with rel show ?case using Cons.prems(3) b1 b2 by (rule Cons.IH)
qed

lemma related_initial: "related k initial_state initial_state"
  by (simp add: related_def sets_related_def reports_related_def initial_state_def)

lemma run_flag_flipped:
  assumes "flag_flipped k c1 c2"
    and "run c1 es initial_state = Inr s1" and "run c2 es initial_state = Inr s2"
  shows "subseq (filter (\<lambda>r. snd r = violationMessageStore (other_kind k)) (reports s1))
           (reports s2)"
    and "\<exists>kept. subseq kept (reports s1)
        \<and> filter (\<lambda>r. snd r = violationMessageStore (other_kind k)) kept
            = filter (\<lambda>r. snd r = violationMessageStore (other_kind k)) (reports s1)
        \<and> reports s2 = map (\<lambda>r. (fst r, violationMessageStore (other_kind k))) kept"
proof -
  have "related k s1 s2"
    using related_initial suppressed_initial assms by (rule run_related)
  then have r: "reports_related k (reports s1) (reports s2)" by (simp add: related_def)
  from r show "subseq (filter (\<lambda>r. snd r = violationMessageStore (other_kind k)) (reports s1))
           (reports s2)" by (rule reports_related_subseq)
  from r show "\<exists>kept. subseq kept (reports s1)
        \<and> filter (\<lambda>r. snd r = violationMessageStore (other_kind k)) kept
            = filter (\<lambda>r. snd r = violationMessageStore (other_kind k)) (reports s1)
        \<and> reports s2 = map (\<lambda>r. (fst r, violationMessageStore (other_kind k))) kept"
    by (simp add: reports_related_def)
qed

lemma run_allowed:
  assumes "allowed cfg k" and "run cfg es initial_state = Inr s"
  shows "\<forall>r \<in> set (reports s). snd r \<noteq> violationMessageStore k"
proof -
  from assms(2) suppressed_initial assms(1) have "suppressed k s" by (rule run_suppressed)
  then show ?thesis by (simp add: suppressed_def)
qed

text \<open>
  Claim C7, as the code has it. A run with \<open>allowArrays\<close> true reports no diagnostic of
  the array kind, at a literal or through a binding. When the runs over the same events
  with \<open>allowArrays\<close> false and with \<open>allowArrays\<close> true both end normally, every
  object diagnostic of the first is a diagnostic of the second, in the same order; the
  second may report further object diagnostics, but only at sites where the first
  reported an array. Precisely, the diagnostics of the second run are obtained from
  those of the first by keeping every object diagnostic, dropping some of the array
  diagnostics, and turning each array diagnostic that is kept into an object diagnostic
  at the same node, the order unchanged. The same holds with the two kinds and the two
  flags exchanged.
\<close>

theorem allow_flag_suppresses_its_kind:
  "(run (cfg\<lparr>allowArrays := True\<rparr>) events initial_state = Inr sT
      \<longrightarrow> (\<forall>r \<in> set (reports sT). snd r \<noteq> violationMessageStore array))
   \<and> (run (cfg\<lparr>allowArrays := False\<rparr>) events initial_state = Inr sF
        \<and> run (cfg\<lparr>allowArrays := True\<rparr>) events initial_state = Inr sT
      \<longrightarrow> subseq (filter (\<lambda>r. snd r = violationMessageStore object) (reports sF))
            (reports sT)
          \<and> (\<exists>kept. subseq kept (reports sF)
                \<and> filter (\<lambda>r. snd r = violationMessageStore object) kept
                    = filter (\<lambda>r. snd r = violationMessageStore object) (reports sF)
                \<and> reports sT = map (\<lambda>r. (fst r, violationMessageStore object)) kept))
   \<and> (run (cfg\<lparr>allowObjects := True\<rparr>) events initial_state = Inr sT'
      \<longrightarrow> (\<forall>r \<in> set (reports sT'). snd r \<noteq> violationMessageStore object))
   \<and> (run (cfg\<lparr>allowObjects := False\<rparr>) events initial_state = Inr sF'
        \<and> run (cfg\<lparr>allowObjects := True\<rparr>) events initial_state = Inr sT'
      \<longrightarrow> subseq (filter (\<lambda>r. snd r = violationMessageStore array) (reports sF'))
            (reports sT')
          \<and> (\<exists>kept. subseq kept (reports sF')
                \<and> filter (\<lambda>r. snd r = violationMessageStore array) kept
                    = filter (\<lambda>r. snd r = violationMessageStore array) (reports sF')
                \<and> reports sT' = map (\<lambda>r. (fst r, violationMessageStore array)) kept))"
proof (intro conjI impI)
  assume "run (cfg\<lparr>allowArrays := True\<rparr>) events initial_state = Inr sT"
  with run_allowed [of "cfg\<lparr>allowArrays := True\<rparr>" array events sT]
  show "\<forall>r \<in> set (reports sT). snd r \<noteq> violationMessageStore array" by simp
next
  assume "run (cfg\<lparr>allowObjects := True\<rparr>) events initial_state = Inr sT'"
  with run_allowed [of "cfg\<lparr>allowObjects := True\<rparr>" object events sT']
  show "\<forall>r \<in> set (reports sT'). snd r \<noteq> violationMessageStore object" by simp
next
  assume a: "run (cfg\<lparr>allowArrays := False\<rparr>) events initial_state = Inr sF
        \<and> run (cfg\<lparr>allowArrays := True\<rparr>) events initial_state = Inr sT"
  have flipped: "flag_flipped array (cfg\<lparr>allowArrays := False\<rparr>) (cfg\<lparr>allowArrays := True\<rparr>)"
    by (simp add: flag_flipped_def)
  from run_flag_flipped(1) [OF flipped, of events sF sT] a
  show "subseq (filter (\<lambda>r. snd r = violationMessageStore object) (reports sF)) (reports sT)"
    by (simp del: violationMessageStore.simps)
  from run_flag_flipped(2) [OF flipped, of events sF sT] a
  show "\<exists>kept. subseq kept (reports sF)
      \<and> filter (\<lambda>r. snd r = violationMessageStore object) kept
          = filter (\<lambda>r. snd r = violationMessageStore object) (reports sF)
      \<and> reports sT = map (\<lambda>r. (fst r, violationMessageStore object)) kept"
    by (simp del: violationMessageStore.simps)
next
  assume a: "run (cfg\<lparr>allowObjects := False\<rparr>) events initial_state = Inr sF'
        \<and> run (cfg\<lparr>allowObjects := True\<rparr>) events initial_state = Inr sT'"
  have flipped:
    "flag_flipped object (cfg\<lparr>allowObjects := False\<rparr>) (cfg\<lparr>allowObjects := True\<rparr>)"
    by (simp add: flag_flipped_def)
  from run_flag_flipped(1) [OF flipped, of events sF' sT'] a
  show "subseq (filter (\<lambda>r. snd r = violationMessageStore array) (reports sF')) (reports sT')"
    by (simp del: violationMessageStore.simps)
  from run_flag_flipped(2) [OF flipped, of events sF' sT'] a
  show "\<exists>kept. subseq kept (reports sF')
      \<and> filter (\<lambda>r. snd r = violationMessageStore array) kept
          = filter (\<lambda>r. snd r = violationMessageStore array) (reports sF')
      \<and> reports sT' = map (\<lambda>r. (fst r, violationMessageStore array)) kept"
    by (simp del: violationMessageStore.simps)
qed

text \<open>
  On \<open>ex_events\<close> the default run reports an array, an object, an array and an object.
  With arrays allowed the two objects remain, and with objects allowed the two arrays. On
  \<open>ex_conditional\<close> the array reported by default is kept, as an object at the same
  node, once arrays are allowed.
\<close>

theorem allow_flag_suppresses_its_kind_witness:
  "reported (run cfg_default ex_events initial_state) =
     Inr [(1, ''Props should not use array allocations''),
          (2, ''Props should not use object allocations''),
          (4, ''Props should not use array allocations''),
          (5, ''Props should not use object allocations'')]
   \<and> reported (run (cfg_default\<lparr>allowArrays := True\<rparr>) ex_events initial_state) =
     Inr [(2, ''Props should not use object allocations''),
          (5, ''Props should not use object allocations'')]
   \<and> reported (run (cfg_default\<lparr>allowObjects := True\<rparr>) ex_events initial_state) =
     Inr [(1, ''Props should not use array allocations''),
          (4, ''Props should not use array allocations'')]
   \<and> subseq [(2, ''Props should not use object allocations''),
             (5, ''Props should not use object allocations'')]
            [(2, ''Props should not use object allocations''),
             (5, ''Props should not use object allocations'')]
   \<and> subseq [(1, ''Props should not use array allocations''),
             (4, ''Props should not use array allocations'')]
            [(1::nat, ''Props should not use array allocations''),
             (4, ''Props should not use array allocations'')]
   \<and> reported (run cfg_default ex_conditional initial_state) =
     Inr [(1, ''Props should not use array allocations'')]
   \<and> reported (run (cfg_default\<lparr>allowArrays := True\<rparr>) ex_conditional initial_state) =
     Inr [(1, ''Props should not use object allocations'')]
   \<and> (\<exists>kept. subseq kept [(1::nat, ''Props should not use array allocations'')]
         \<and> filter (\<lambda>r. snd r = ''Props should not use object allocations'') kept = []
         \<and> [(1, ''Props should not use object allocations'')]
             = map (\<lambda>r. (fst r, ''Props should not use object allocations'')) kept)"
proof -
  let ?sF = "\<lparr>blockVariableNameSets =
            [40 \<mapsto> \<lparr>array_set = {Some ''bar''}, object_set = {Some ''style''}\<rparr>],
          reports = [(1, ''Props should not use array allocations''),
                     (2, ''Props should not use object allocations''),
                     (4, ''Props should not use array allocations''),
                     (5, ''Props should not use object allocations'')]\<rparr>"
  let ?sA = "\<lparr>blockVariableNameSets =
            [40 \<mapsto> \<lparr>array_set = {}, object_set = {Some ''style''}\<rparr>],
          reports = [(2, ''Props should not use object allocations''),
                     (5, ''Props should not use object allocations'')]\<rparr>"
  let ?sO = "\<lparr>blockVariableNameSets =
            [40 \<mapsto> \<lparr>array_set = {Some ''bar''}, object_set = {}\<rparr>],
          reports = [(1, ''Props should not use array allocations''),
                     (4, ''Props should not use array allocations'')]\<rparr>"
  let ?cF = "\<lparr>blockVariableNameSets = Map.empty,
          reports = [(1, ''Props should not use array allocations'')]\<rparr>"
  let ?cA = "\<lparr>blockVariableNameSets = Map.empty,
          reports = [(1, ''Props should not use object allocations'')]\<rparr>"
  have f: "run cfg_default ex_events initial_state = Inr ?sF"
    by (simp add: cfg_default_def ex_events_def run_simps)
  have a: "run (cfg_default\<lparr>allowArrays := True\<rparr>) ex_events initial_state = Inr ?sA"
    by (simp add: cfg_default_def ex_events_def run_simps)
  have o: "run (cfg_default\<lparr>allowObjects := True\<rparr>) ex_events initial_state = Inr ?sO"
    by (simp add: cfg_default_def ex_events_def run_simps)
  have cf: "run cfg_default ex_conditional initial_state = Inr ?cF"
    by (simp add: cfg_default_def ex_conditional_def run_simps)
  have ca: "run (cfg_default\<lparr>allowArrays := True\<rparr>) ex_conditional initial_state = Inr ?cA"
    by (simp add: cfg_default_def ex_conditional_def run_simps)
  have same: "cfg_default\<lparr>allowArrays := False\<rparr> = cfg_default"
    "cfg_default\<lparr>allowObjects := False\<rparr> = cfg_default"
    by (simp_all add: cfg_default_def)
  from allow_flag_suppresses_its_kind
    [where cfg = cfg_default and events = ex_events and sT = ?sA and sF = ?sF
       and sT' = ?sO and sF' = ?sF] f a o same
  have "subseq (filter (\<lambda>r. snd r = violationMessageStore object) (reports ?sF)) (reports ?sA)"
    and "subseq (filter (\<lambda>r. snd r = violationMessageStore array) (reports ?sF)) (reports ?sO)"
    by simp_all
  then have sub: "subseq [(2, ''Props should not use object allocations''),
             (5, ''Props should not use object allocations'')]
            [(2::nat, ''Props should not use object allocations''),
             (5, ''Props should not use object allocations'')]"
    "subseq [(1, ''Props should not use array allocations''),
             (4, ''Props should not use array allocations'')]
            [(1::nat, ''Props should not use array allocations''),
             (4, ''Props should not use array allocations'')]"
    by simp_all
  from allow_flag_suppresses_its_kind
    [where cfg = cfg_default and events = ex_conditional and sT = ?cA and sF = ?cF] cf ca same
  have "\<exists>kept. subseq kept (reports ?cF)
      \<and> filter (\<lambda>r. snd r = violationMessageStore object) kept
          = filter (\<lambda>r. snd r = violationMessageStore object) (reports ?cF)
      \<and> reports ?cA = map (\<lambda>r. (fst r, violationMessageStore object)) kept"
    by simp
  then have kept: "\<exists>kept. subseq kept [(1::nat, ''Props should not use array allocations'')]
         \<and> filter (\<lambda>r. snd r = ''Props should not use object allocations'') kept = []
         \<and> [(1, ''Props should not use object allocations'')]
             = map (\<lambda>r. (fst r, ''Props should not use object allocations'')) kept"
    by simp
  from f a o cf ca sub kept show ?thesis by simp
qed

text \<open>
  The claim as stated, that the diagnostics of the other kind are the same in the two
  runs, fails on \<open>ex_conditional\<close>: for \<^verbatim>\<open>bar={c ? [] : {}}\<close> the run with
  \<open>allowArrays\<close> false reports an array and no object, the run with \<open>allowArrays\<close>
  true reports an object.
\<close>

theorem allow_flag_other_kind_counterexample:
  "run cfg_default ex_conditional initial_state =
     Inr \<lparr>blockVariableNameSets = Map.empty,
          reports = [(1, ''Props should not use array allocations'')]\<rparr>
   \<and> run (cfg_default\<lparr>allowArrays := True\<rparr>) ex_conditional initial_state =
     Inr \<lparr>blockVariableNameSets = Map.empty,
          reports = [(1, ''Props should not use object allocations'')]\<rparr>"
  by (simp add: cfg_default_def ex_conditional_def run_simps)

end
